theory Spec2Isabelle
  imports Main "HOL-Library.Word" "HOL-Library.Monad_Syntax" "HOL-Library.Log_Nat"
begin

unbundle bit_operations_syntax

section \<open>Constants of Vibrator.cpp\<close>

definition FF_CUSTOM_DATA_LEN_MAX_COMP :: nat where "FF_CUSTOM_DATA_LEN_MAX_COMP = 2044"
definition FF_CUSTOM_DATA_LEN_MAX_PWLE :: nat where "FF_CUSTOM_DATA_LEN_MAX_PWLE = 2302"
definition COMPOSE_DELAY_MAX_MS :: int where "COMPOSE_DELAY_MAX_MS = 10000"
definition COMPOSE_SIZE_MAX :: nat where "COMPOSE_SIZE_MAX = 254"
definition COMPOSE_PWLE_SIZE_MAX_DEFAULT :: nat where "COMPOSE_PWLE_SIZE_MAX_DEFAULT = 127"
definition COMPOSE_PWLE_PRIMITIVE_DURATION_MAX_MS :: int where
  "COMPOSE_PWLE_PRIMITIVE_DURATION_MAX_MS = 16383"
definition WT_LEN_CALCD :: "32 word" where "WT_LEN_CALCD = 0x00800000"
definition PWLE_CHIRP_BIT :: "8 word" where "PWLE_CHIRP_BIT = 0x8"
definition PWLE_BRAKE_BIT :: "8 word" where "PWLE_BRAKE_BIT = 0x4"
definition PWLE_AMP_REG_BIT :: "8 word" where "PWLE_AMP_REG_BIT = 0x2"

text \<open>The values of \<open>enum WaveformIndex\<close> that the modelled functions use.\<close>

definition WAVEFORM_LONG_VIBRATION_EFFECT_INDEX :: nat where "WAVEFORM_LONG_VIBRATION_EFFECT_INDEX = 0"
definition WAVEFORM_CLICK_INDEX :: nat where "WAVEFORM_CLICK_INDEX = 2"
definition WAVEFORM_SHORT_VIBRATION_EFFECT_INDEX :: nat where "WAVEFORM_SHORT_VIBRATION_EFFECT_INDEX = 3"
definition WAVEFORM_THUD_INDEX :: nat where "WAVEFORM_THUD_INDEX = 4"
definition WAVEFORM_SPIN_INDEX :: nat where "WAVEFORM_SPIN_INDEX = 5"
definition WAVEFORM_QUICK_RISE_INDEX :: nat where "WAVEFORM_QUICK_RISE_INDEX = 6"
definition WAVEFORM_SLOW_RISE_INDEX :: nat where "WAVEFORM_SLOW_RISE_INDEX = 7"
definition WAVEFORM_QUICK_FALL_INDEX :: nat where "WAVEFORM_QUICK_FALL_INDEX = 8"
definition WAVEFORM_LIGHT_TICK_INDEX :: nat where "WAVEFORM_LIGHT_TICK_INDEX = 9"
definition WAVEFORM_LOW_TICK_INDEX :: nat where "WAVEFORM_LOW_TICK_INDEX = 10"
definition WAVEFORM_MAX_PHYSICAL_INDEX :: nat where "WAVEFORM_MAX_PHYSICAL_INDEX = 14"
definition WAVEFORM_COMPOSE :: nat where "WAVEFORM_COMPOSE = 14"
definition WAVEFORM_PWLE :: nat where "WAVEFORM_PWLE = 15"
definition WAVEFORM_MAX_INDEX :: nat where "WAVEFORM_MAX_INDEX = 16"

text \<open>The \<open>errno\<close> numbers that \<open>DspMemChunk\<close> returns negated.\<close>

definition ENOMEM :: int where "ENOMEM = 12"
definition EINVAL :: int where "EINVAL = 22"
definition ENOSPC :: int where "ENOSPC = 28"
definition EDOM :: int where "EDOM = 33"
definition ERANGE :: int where "ERANGE = 34"

section \<open>Undefined behaviour\<close>

text \<open>
  Where the C++ has no defined behaviour the model returns a fault (\<open>Inl\<close>) instead of
  a result: a store through a pointer beyond its array, a shift count outside \<open>0..31\<close>,
  the conversion to an integer type of a floating-point value that the type cannot hold,
  a signed addition whose result the type cannot hold, and an access to a
  \<open>std::vector\<close> at an index it does not have.
\<close>

datatype fault = StoreOutOfBounds | ShiftCountOutOfRange | FloatToIntOutOfRange
  | SignedOverflow | VectorIndexOutOfRange

definition bnd :: "fault + 'a \<Rightarrow> ('a \<Rightarrow> fault + 'b) \<Rightarrow> fault + 'b" where
  "bnd m f = (case m of Inl e \<Rightarrow> Inl e | Inr a \<Rightarrow> f a)"

section \<open>Single-precision values\<close>

text \<open>
  A \<open>float\<close> is NaN, an infinity or a finite value, kept as the rational number it
  denotes (the sign of a zero is not kept: no modelled operation depends on it, the only
  division being guarded by \<open>maximum != 0\<close>). \<open>rnd32\<close> rounds a rational to the
  nearest binary32 value, ties to even, as every arithmetic operation and every conversion
  to \<open>float\<close> does.
\<close>

datatype fval = NaN | MInf | Fin rat | PInf

definition pow2 :: "int \<Rightarrow> rat" where
  "pow2 e = (if 0 \<le> e then 2 ^ nat e else 1 / 2 ^ nat (- e))"

definition flog2 :: "rat \<Rightarrow> int" where
  "flog2 x = (case quotient_of x of (p, q) \<Rightarrow>
     let d = bitlen p - bitlen q in if pow2 d \<le> x then d else d - 1)"

definition round_even :: "rat \<Rightarrow> int" where
  "round_even r =
     (let f = \<lfloor>r\<rfloor>; d = r - of_int f
      in if d < 1 / 2 then f else if 1 / 2 < d then f + 1 else if even f then f else f + 1)"

definition rnd32 :: "rat \<Rightarrow> fval" where
  "rnd32 x =
     (if x = 0 then Fin 0
      else
        let e = max (flog2 \<bar>x\<bar>) (- 126);
            q = pow2 (e - 23);
            y = of_int (round_even (x / q)) * q
        in if pow2 128 \<le> \<bar>y\<bar> then (if 0 < x then PInf else MInf) else Fin y)"

definition float_of_int :: "int \<Rightarrow> fval" where
  "float_of_int n = rnd32 (of_int n)"

fun fsgn :: "fval \<Rightarrow> int" where
  "fsgn NaN = 0"
| "fsgn MInf = - 1"
| "fsgn PInf = 1"
| "fsgn (Fin a) = (if a < 0 then - 1 else 1)"

definition signed_inf :: "int \<Rightarrow> fval" where
  "signed_inf s = (if 0 < s then PInf else MInf)"

fun fmul :: "fval \<Rightarrow> fval \<Rightarrow> fval" where
  "fmul NaN y = NaN"
| "fmul x NaN = NaN"
| "fmul (Fin a) (Fin b) = rnd32 (a * b)"
| "fmul (Fin a) y = (if a = 0 then NaN else signed_inf (fsgn (Fin a) * fsgn y))"
| "fmul x (Fin b) = (if b = 0 then NaN else signed_inf (fsgn x * fsgn (Fin b)))"
| "fmul x y = signed_inf (fsgn x * fsgn y)"

fun fdiv :: "fval \<Rightarrow> fval \<Rightarrow> fval" where
  "fdiv NaN y = NaN"
| "fdiv x NaN = NaN"
| "fdiv (Fin a) (Fin b) =
     (if b = 0 then (if a = 0 then NaN else signed_inf (fsgn (Fin a))) else rnd32 (a / b))"
| "fdiv (Fin a) y = Fin 0"
| "fdiv x (Fin b) = signed_inf (fsgn x * fsgn (Fin b))"
| "fdiv x y = NaN"

text \<open>The comparisons \<open><\<close>, \<open>>\<close> and \<open>==\<close>: false whenever an operand is NaN.\<close>

fun fless :: "fval \<Rightarrow> fval \<Rightarrow> bool" where
  "fless NaN y = False"
| "fless x NaN = False"
| "fless PInf y = False"
| "fless x MInf = False"
| "fless MInf y = True"
| "fless x PInf = True"
| "fless (Fin a) (Fin b) = (a < b)"

definition fgreater :: "fval \<Rightarrow> fval \<Rightarrow> bool" where
  "fgreater x y = fless y x"

definition feq :: "fval \<Rightarrow> fval \<Rightarrow> bool" where
  "feq x y \<longleftrightarrow> x \<noteq> NaN \<and> y \<noteq> NaN \<and> x = y"

text \<open>\<open>round\<close>, \<open>roundf\<close>: to the nearest integer, halfway cases away from zero.\<close>

definition round_away :: "rat \<Rightarrow> int" where
  "round_away r = (if 0 \<le> r then \<lfloor>r + 1 / 2\<rfloor> else - \<lfloor>- r + 1 / 2\<rfloor>)"

fun roundf :: "fval \<Rightarrow> fval" where
  "roundf (Fin r) = Fin (of_int (round_away r))"
| "roundf x = x"

text \<open>
  Conversion of a \<open>float\<close> to an unsigned integer type of \<open>w\<close> bits truncates towards
  zero, and is undefined when the truncated value is not a value of the type.
\<close>

definition trunc0 :: "rat \<Rightarrow> int" where
  "trunc0 r = (if 0 \<le> r then \<lfloor>r\<rfloor> else - \<lfloor>- r\<rfloor>)"

definition float_to_unsigned :: "nat \<Rightarrow> fval \<Rightarrow> fault + int" where
  "float_to_unsigned w x =
     (case x of
        Fin r \<Rightarrow> (if 0 \<le> trunc0 r \<and> trunc0 r < 2 ^ w then Inr (trunc0 r) else Inl FloatToIntOutOfRange)
      | _ \<Rightarrow> Inl FloatToIntOutOfRange)"

text \<open>
  \<open>std::lround\<close> returns a 64-bit \<open>long\<close>. For NaN, for an infinity and for a value
  that rounds outside the range of \<open>long\<close> the result is unspecified, not undefined:
  the call returns some \<open>long\<close> and the program goes on. That value is the choice of
  the C library, the parameter \<open>unspecified\<close>.
\<close>

definition lround :: "(fval \<Rightarrow> 64 word) \<Rightarrow> fval \<Rightarrow> int" where
  "lround unspecified x =
     (case x of
        Fin r \<Rightarrow> (if - (2 ^ 63) \<le> round_away r \<and> round_away r < 2 ^ 63 then round_away r
                  else sint (unspecified x))
      | _ \<Rightarrow> sint (unspecified x))"

section \<open>amplitudeToScale\<close>

definition amplitudeToScale :: "fval \<Rightarrow> fval \<Rightarrow> fault + 16 word" where
  "amplitudeToScale amplitude maximum =
     (let ratio0 = Fin 100;
          ratio1 = (if \<not> feq maximum (Fin 0) then fmul (fdiv amplitude maximum) (Fin 100) else ratio0);
          ratio2 = (if feq maximum (Fin 0) \<or> fgreater ratio1 (Fin 100) then Fin 100 else ratio1)
      in bnd (float_to_unsigned 16 (roundf ratio2)) (\<lambda>n. Inr (word_of_int n)))"

section \<open>DspMemChunk: the bit writer\<close>

text \<open>
  The class \<open>DspMemChunk\<close>. The pointers \<open>_current\<close> and \<open>_max\<close> are kept as offsets
  from \<open>head\<close>; \<open>head\<close> is the array of \<open>size\<close> bytes that the constructor
  allocates, all zero. The \<open>int\<close> arguments and fields that count bits are natural
  numbers here: every call site passes a literal width or \<open>24 - _cachebits\<close>.
\<close>

record DspMemChunk =
  head :: "8 word list"
  bytes :: nat
  waveformType :: nat
  current :: nat
  max_ptr :: nat
  cache :: "32 word"
  cachebits :: nat

definition isEnd :: "DspMemChunk \<Rightarrow> bool" where
  "isEnd ch \<longleftrightarrow> current ch = max_ptr ch"

text \<open>
  The loop \<open>for (i = 0; i < sizeof(_cache); i++, _cache <<= 8) *_current++ = (_cache & 0xFF000000) >> 24\<close>,
  with the number of remaining iterations as first argument.
\<close>

fun store_cache :: "nat \<Rightarrow> DspMemChunk \<Rightarrow> DspMemChunk" where
  "store_cache 0 ch = ch"
| "store_cache (Suc n) ch =
     store_cache n (ch\<lparr>head := (head ch)[current ch := ucast (drop_bit 24 (cache ch AND 0xFF000000))],
                       current := current ch + 1,
                       cache := push_bit 8 (cache ch)\<rparr>)"

text \<open>
  \<open>write(nbits, val)\<close>. The source checks \<open>isEnd()\<close> only, so a store of four bytes
  into an array with fewer than four bytes left is the fault \<open>StoreOutOfBounds\<close>.
\<close>

function chunk_write :: "nat \<Rightarrow> 32 word \<Rightarrow> DspMemChunk \<Rightarrow> fault + (int \<times> DspMemChunk)" where
  "chunk_write nbits val ch =
     (if 24 < cachebits ch \<or> 32 \<le> nbits - min (24 - cachebits ch) nbits then Inl ShiftCountOutOfRange
      else
        let nwrite = min (24 - cachebits ch) nbits;
            ch1 = ch\<lparr>cache := push_bit nwrite (cache ch) OR drop_bit (nbits - nwrite) val,
                     cachebits := cachebits ch + nwrite\<rparr>;
            nbits' = nbits - nwrite
        in if cachebits ch1 = 24 then
             (if isEnd ch1 then Inr (- ENOSPC, ch1)
              else if length (head ch1) < current ch1 + 4 then Inl StoreOutOfBounds
              else
                let ch2 = store_cache 4 (ch1\<lparr>cache := cache ch1 AND 0xFFFFFF\<rparr>);
                    ch3 = ch2\<lparr>bytes := bytes ch2 + 4, cachebits := 0\<rparr>
                in if nbits' \<noteq> 0 then chunk_write nbits' val ch3 else Inr (0, ch3))
           else if nbits' \<noteq> 0 then chunk_write nbits' val ch1 else Inr (0, ch1))"
  by pat_completeness auto
termination
  by (relation "measure (\<lambda>(nbits, val, ch). 2 * nbits + (if cachebits ch = 24 then 1 else 0))")
     (auto simp: Let_def min_def split: if_splits)

declare chunk_write.simps [simp del]

text \<open>A write whose return value the caller drops: only the chunk is passed on.\<close>

definition wr :: "nat \<Rightarrow> 32 word \<Rightarrow> DspMemChunk \<Rightarrow> fault + DspMemChunk" where
  "wr nbits val ch = bnd (chunk_write nbits val ch) (\<lambda>(rc, ch'). Inr ch')"

text \<open>
  \<open>fToU16(input, output, scale, min, max)\<close>: the status and the value stored in
  \<open>*output\<close> (which the caller initialised to 0 and which stays 0 on \<open>-ERANGE\<close>).
\<close>

definition fToU16 :: "fval \<Rightarrow> fval \<Rightarrow> fval \<Rightarrow> fval \<Rightarrow> fault + (int \<times> 16 word)" where
  "fToU16 input scale fmin fmax =
     (if fless input fmin \<or> fgreater input fmax then Inr (- ERANGE, 0)
      else bnd (float_to_unsigned 16 (roundf (fmul input scale))) (\<lambda>n. Inr (0, word_of_int n)))"

definition constructPwleSegment ::
    "16 word \<Rightarrow> 16 word \<Rightarrow> 16 word \<Rightarrow> 8 word \<Rightarrow> 32 word \<Rightarrow> DspMemChunk \<Rightarrow> fault + DspMemChunk" where
  "constructPwleSegment delay amplitude frequency flags vbemfTarget ch =
     bnd (wr 16 (ucast delay) ch) (\<lambda>c1.
     bnd (wr 12 (ucast amplitude) c1) (\<lambda>c2.
     bnd (wr 12 (ucast frequency) c2) (\<lambda>c3.
     bnd (wr 8 (push_bit 4 (ucast (flags OR 1))) c3) (\<lambda>c4.
     if flags AND PWLE_AMP_REG_BIT \<noteq> 0 then wr 24 vbemfTarget c4 else Inr c4))))"

text \<open>
  The constructor \<open>DspMemChunk(type, size)\<close> (\<open>sz\<close> below): \<open>new uint8_t[size]{0x00}\<close> and the header
  of the waveform type. \<open>head\<close> is never null afterwards, so the \<open>-ENOMEM\<close> branches of
  \<open>updateWLength\<close> and \<open>updateNSection\<close> are not reachable and are left out.
\<close>

definition new_DspMemChunk :: "nat \<Rightarrow> nat \<Rightarrow> fault + DspMemChunk" where
  "new_DspMemChunk type sz =
     (let ch = \<lparr>head = replicate sz 0, bytes = 0, waveformType = type, current = 0,
                max_ptr = sz, cache = 0, cachebits = 0\<rparr>
      in if type = WAVEFORM_COMPOSE then
           bnd (wr 8 0 ch) (\<lambda>c1. bnd (wr 8 0 c1) (\<lambda>c2. wr 8 0 c2))
         else if type = WAVEFORM_PWLE then
           bnd (wr 24 0 ch) (\<lambda>c1. bnd (wr 8 0 c1) (\<lambda>c2. bnd (wr 12 0 c2) (\<lambda>c3. wr 8 0 c3)))
         else Inr ch)"

definition flush :: "DspMemChunk \<Rightarrow> fault + (int \<times> DspMemChunk)" where
  "flush ch = (if cachebits ch = 0 then Inr (0, ch) else chunk_write (24 - cachebits ch) 0 ch)"

definition constructComposeSegment ::
    "32 word \<Rightarrow> 32 word \<Rightarrow> 8 word \<Rightarrow> 8 word \<Rightarrow> 16 word \<Rightarrow> DspMemChunk \<Rightarrow> fault + (int \<times> DspMemChunk)" where
  "constructComposeSegment effectVolLevel effectIndex repeat flags nextEffectDelay ch =
     (if waveformType ch \<noteq> WAVEFORM_COMPOSE then Inr (- EDOM, ch)
      else if 100 < effectVolLevel \<or> of_nat WAVEFORM_MAX_PHYSICAL_INDEX < effectIndex then Inr (- EINVAL, ch)
      else
        bnd (wr 8 effectVolLevel ch) (\<lambda>c1.
        bnd (wr 8 effectIndex c1) (\<lambda>c2.
        bnd (wr 8 (ucast repeat) c2) (\<lambda>c3.
        bnd (wr 8 (ucast flags) c3) (\<lambda>c4.
        bnd (wr 16 (ucast nextEffectDelay) c4) (\<lambda>c5. Inr (0, c5)))))))"

text \<open>The float constants of the PWLE format; each literal is rounded to binary32.\<close>

definition PWLE_LEVEL_MIN :: fval where "PWLE_LEVEL_MIN = Fin 0"
definition PWLE_LEVEL_MAX :: fval where "PWLE_LEVEL_MAX = Fin 1"
definition CS40L26_PWLE_LEVEL_MIN :: fval where "CS40L26_PWLE_LEVEL_MIN = Fin (- 1)"
definition CS40L26_PWLE_LEVEL_MAX :: fval where "CS40L26_PWLE_LEVEL_MAX = rnd32 (9995118 / 10000000)"
definition PWLE_FREQUENCY_MIN_HZ :: fval where "PWLE_FREQUENCY_MIN_HZ = Fin 1"
definition PWLE_FREQUENCY_MAX_HZ :: fval where "PWLE_FREQUENCY_MAX_HZ = Fin 1000"

text \<open>
  \<open>constructActiveSegment(duration, amplitude, frequency, chirp)\<close>. The three
  conversions are joined by \<open>||\<close>: a later one runs only if the earlier ones succeeded.
\<close>

definition constructActiveSegment ::
    "int \<Rightarrow> fval \<Rightarrow> fval \<Rightarrow> bool \<Rightarrow> DspMemChunk \<Rightarrow> fault + (int \<times> DspMemChunk)" where
  "constructActiveSegment duration amplitude frequency chirp ch =
     (if waveformType ch \<noteq> WAVEFORM_PWLE then Inr (- EDOM, ch)
      else
        bnd (fToU16 (float_of_int duration) (Fin 4) (Fin 0)
               (float_of_int COMPOSE_PWLE_PRIMITIVE_DURATION_MAX_MS)) (\<lambda>(r1, delay).
        if r1 < 0 then Inr (- ERANGE, ch)
        else
          bnd (fToU16 amplitude (Fin 2048) CS40L26_PWLE_LEVEL_MIN CS40L26_PWLE_LEVEL_MAX) (\<lambda>(r2, amp).
          if r2 < 0 then Inr (- ERANGE, ch)
          else
            bnd (fToU16 frequency (Fin 4) PWLE_FREQUENCY_MIN_HZ PWLE_FREQUENCY_MAX_HZ) (\<lambda>(r3, freq).
            if r3 < 0 then Inr (- ERANGE, ch)
            else
              let flags = (if chirp then 0 OR PWLE_CHIRP_BIT else 0)
              in bnd (constructPwleSegment delay amp freq flags 0 ch) (\<lambda>c. Inr (0, c))))))"

text \<open>
  \<open>constructBrakingSegment(duration, brakingType)\<close>; \<open>brakingType\<close> is passed as the
  integer value of the \<open>Braking\<close> enumerator (\<open>NONE = 0\<close>, \<open>CLAB = 1\<close>).
\<close>

definition constructBrakingSegment :: "int \<Rightarrow> int \<Rightarrow> DspMemChunk \<Rightarrow> fault + (int \<times> DspMemChunk)" where
  "constructBrakingSegment duration brakingType ch =
     (if waveformType ch \<noteq> WAVEFORM_PWLE then Inr (- EDOM, ch)
      else
        bnd (fToU16 (float_of_int duration) (Fin 4) (Fin 0)
               (float_of_int COMPOSE_PWLE_PRIMITIVE_DURATION_MAX_MS)) (\<lambda>(r1, delay).
        if r1 < 0 then Inr (- ERANGE, ch)
        else
          bnd (fToU16 PWLE_FREQUENCY_MIN_HZ (Fin 4) PWLE_FREQUENCY_MIN_HZ PWLE_FREQUENCY_MAX_HZ) (\<lambda>(r3, freq).
          let flags = (if brakingType \<noteq> 0 then 0 OR PWLE_BRAKE_BIT else 0)
          in bnd (constructPwleSegment delay 0 freq flags 0 ch) (\<lambda>c. Inr (0, c)))))"

text \<open>
  \<open>updateWLength(totalDuration)\<close> and \<open>updateNSection(segmentIdx)\<close> patch the header
  through \<open>front()\<close>; a store at an index the array does not have is a fault.
\<close>

definition updateWLength :: "32 word \<Rightarrow> DspMemChunk \<Rightarrow> fault + (int \<times> DspMemChunk)" where
  "updateWLength totalDuration ch =
     (if waveformType ch \<noteq> WAVEFORM_PWLE then Inr (- EDOM, ch)
      else if 0x7FFFF < totalDuration then Inr (- EINVAL, ch)
      else if length (head ch) < 4 then Inl StoreOutOfBounds
      else
        let t = (totalDuration * 8) OR WT_LEN_CALCD
        in Inr (0, ch\<lparr>head := (head ch)
                   [0 := ucast (drop_bit 24 t AND 0xFF),
                    1 := ucast (drop_bit 16 t AND 0xFF),
                    2 := ucast (drop_bit 8 t AND 0xFF),
                    3 := ucast (t AND 0xFF)]\<rparr>))"

definition updateNSection :: "int \<Rightarrow> DspMemChunk \<Rightarrow> fault + (int \<times> DspMemChunk)" where
  "updateNSection segmentIdx ch =
     (if waveformType ch = WAVEFORM_COMPOSE then
        (if int COMPOSE_SIZE_MAX + 1 < segmentIdx then Inr (- EINVAL, ch)
         else if length (head ch) \<le> 2 then Inl StoreOutOfBounds
         else Inr (0, ch\<lparr>head := (head ch)[2 := word_of_int segmentIdx AND 0xFF]\<rparr>))
      else if waveformType ch = WAVEFORM_PWLE then
        (if int COMPOSE_PWLE_SIZE_MAX_DEFAULT < segmentIdx then Inr (- EINVAL, ch)
         else if length (head ch) \<le> 9 then Inl StoreOutOfBounds
         else
           let h7 = (head ch)[7 := head ch ! 7 OR drop_bit 4 (word_of_int segmentIdx AND 0xF0)];
               h9 = h7[9 := h7 ! 9 OR push_bit 4 (word_of_int segmentIdx AND 0x0F)]
           in Inr (0, ch\<lparr>head := h9\<rparr>))
      else Inr (- EDOM, ch))"

section \<open>The Vibrator object and its collaborators\<close>

text \<open>
  The binder status a call returns. The exception code that \<open>uploadOwtEffect\<close> stores in
  \<open>*status\<close> is kept as the status \<open>fromExceptionCode\<close> makes of it.
\<close>

datatype status = STATUS_OK | EX_ILLEGAL_ARGUMENT | EX_NULL_POINTER | EX_ILLEGAL_STATE
  | EX_UNSUPPORTED_OPERATION

datatype capability = CAP_ON_CALLBACK | CAP_PERFORM_CALLBACK | CAP_AMPLITUDE_CONTROL
  | CAP_EXTERNAL_CONTROL | CAP_COMPOSE_EFFECTS | CAP_GET_RESONANT_FREQUENCY | CAP_GET_Q_FACTOR
  | CAP_FREQUENCY_CONTROL | CAP_COMPOSE_PWLE_EFFECTS

datatype CompositePrimitive = NOOP | CLICK | THUD | SPIN | QUICK_RISE | SLOW_RISE | QUICK_FALL
  | LIGHT_TICK | LOW_TICK

fun primitive_value :: "CompositePrimitive \<Rightarrow> nat" where
  "primitive_value NOOP = 0"
| "primitive_value CLICK = 1"
| "primitive_value THUD = 2"
| "primitive_value SPIN = 3"
| "primitive_value QUICK_RISE = 4"
| "primitive_value SLOW_RISE = 5"
| "primitive_value QUICK_FALL = 6"
| "primitive_value LIGHT_TICK = 7"
| "primitive_value LOW_TICK = 8"

record CompositeEffect =
  delayMs :: int
  primitive :: CompositePrimitive
  scale :: fval

text \<open>
  \<open>PrimitivePwle\<close> is a union of \<open>ActivePwle\<close> and \<open>BrakingPwle\<close>; \<open>braking\<close> holds
  the integer value of the \<open>Braking\<close> enumerator (\<open>NONE = 0\<close>, \<open>CLAB = 1\<close>).
\<close>

datatype PrimitivePwle =
    Active (startAmplitude: fval) (startFrequency: fval) (endAmplitude: fval)
      (endFrequency: fval) (duration: int)
  | BrakingSeg (braking: int) (duration: int)

definition Braking_NONE :: int where "Braking_NONE = 0"
definition Braking_CLAB :: int where "Braking_CLAB = 1"

text \<open>The fields of \<open>struct ff_effect\<close> that the file reads or writes.\<close>

record ff_effect =
  ff_id :: int
  replay_length :: "16 word"
  trigger_button :: "16 word"
  custom_len :: nat

datatype actuator = Base | Flip

text \<open>
  The calls made on \<open>HwApi\<close>, \<open>HwGPIO\<close> and the completion callback, in the order
  they are made: the input/output of the object.
\<close>

datatype hwcall =
    GetHapticAlsaDevice
  | HasOwtFreeSpace
  | GetOwtFreeSpace actuator
  | UploadOwtEffect actuator "8 word list" nat
  | SetFFEffect actuator nat "16 word"
  | SetFFPlay actuator int bool
  | SetFFGain actuator "16 word"
  | SetF0Offset actuator "32 word"
  | EraseOwtEffect actuator int
  | GetEffectCount actuator
  | PollVibeState actuator nat
  | SetGPIOOutput bool
  | OnComplete

text \<open>
  What the collaborators answer. \<open>uploadOwtEffect\<close> answers with its result, the
  \<open>ff_effect\<close> it leaves behind, the index it stores in \<open>*outEffectIndex\<close> and the
  exception code it stores in \<open>*status\<close>; \<open>getEffectCount\<close> with the count it stores,
  if it stores one.
\<close>

record HwApi =
  hasOwtFreeSpace :: bool
  getHapticAlsaDevice :: bool
  getOwtFreeSpace :: "32 word"
  uploadOwtEffect :: "8 word list \<Rightarrow> ff_effect \<Rightarrow> nat \<Rightarrow> bool \<times> ff_effect \<times> nat \<times> status"
  setFFEffect :: "ff_effect \<Rightarrow> 16 word \<Rightarrow> bool \<times> ff_effect"
  setFFPlay :: "int \<Rightarrow> bool \<Rightarrow> bool"
  setFFGain :: "16 word \<Rightarrow> bool"
  eraseOwtEffect :: "int \<Rightarrow> (nat \<Rightarrow> ff_effect) \<Rightarrow> bool \<times> (nat \<Rightarrow> ff_effect)"
  getEffectCount :: "32 word option"
  pollVibeState :: "nat \<Rightarrow> bool"

record Env =
  mHwApiDef :: HwApi
  mHwApiDual :: HwApi
  setGPIOOutput :: "bool \<Rightarrow> bool"
  asyncReady :: bool
  lroundUnspecified :: "fval \<Rightarrow> 64 word"

text \<open>
  The members of \<open>Vibrator\<close>. \<open>mAsyncHandle\<close> holds the completion task that the last
  successful \<open>on\<close> launched, as its callback (\<open>None\<close> for a null callback, otherwise
  whether \<open>onComplete()\<close> will succeed); whether an earlier task is finished when \<open>on\<close>
  waits for it is the answer \<open>asyncReady\<close> of the environment. The vectors
  \<open>mFfEffects\<close> and \<open>mFfEffectsDual\<close> have \<open>WAVEFORM_MAX_INDEX\<close> entries from the
  constructor on; they are kept as their entries by index, and an access at an index from
  \<open>WAVEFORM_MAX_INDEX\<close> on is the fault \<open>VectorIndexOutOfRange\<close>. \<open>hwlog\<close> is the
  sequence of calls made so far, each with the value that \<open>mActiveId\<close> has when the call
  is made.
\<close>

record Vibrator =
  mIsDual :: bool
  mGPIOStatus :: bool
  mActiveId :: int
  mFfEffects :: "nat \<Rightarrow> ff_effect"
  mFfEffectsDual :: "nat \<Rightarrow> ff_effect"
  mSupportedPrimitivesBits :: "32 word"
  mTickEffectVol :: "32 word \<times> 32 word"
  mClickEffectVol :: "32 word \<times> 32 word"
  mLongEffectVol :: "32 word \<times> 32 word"
  mLongEffectScale :: fval
  mF0Offset :: "32 word"
  mF0OffsetDual :: "32 word"
  mIsChirpEnabled :: bool
  mHasHapticAlsaDevice :: bool
  mConfigHapticAlsaDeviceDone :: bool
  mAsyncHandle :: "bool option option"
  hwlog :: "(hwcall \<times> int) list"

definition logcall :: "hwcall \<Rightarrow> Vibrator \<Rightarrow> Vibrator" where
  "logcall c v = v\<lparr>hwlog := hwlog v @ [(c, mActiveId v)]\<rparr>"

definition hwApi :: "Env \<Rightarrow> actuator \<Rightarrow> HwApi" where
  "hwApi env a = (case a of Base \<Rightarrow> mHwApiDef env | Flip \<Rightarrow> mHwApiDual env)"

text \<open>The tables the constructor fills and nothing changes afterwards.\<close>

definition mEffectDurations :: "nat list" where
  "mEffectDurations = [1000, 100, 12, 1000, 300, 130, 150, 500, 100, 5, 12, 1000, 1000, 1000]"

definition mPrimitiveMaxScale :: "fval list" where
  "mPrimitiveMaxScale = [Fin 1, rnd32 (95 / 100), rnd32 (75 / 100), rnd32 (9 / 10), Fin 1, Fin 1,
     Fin 1, rnd32 (75 / 100), rnd32 (75 / 100)]"

definition mPrimitiveMinScale :: "fval list" where
  "mPrimitiveMinScale = [Fin 0, rnd32 (1 / 100), rnd32 (11 / 100), rnd32 (23 / 100), Fin 0,
     rnd32 (25 / 100), rnd32 (2 / 100), rnd32 (3 / 100), rnd32 (16 / 100)]"

definition VOLTAGE_SCALE_MAX :: nat where "VOLTAGE_SCALE_MAX = 100"
definition MAX_COLD_START_LATENCY_MS :: nat where "MAX_COLD_START_LATENCY_MS = 6"
definition MAX_TIME_MS :: nat where "MAX_TIME_MS = 65535"
definition POLLING_TIMEOUT :: nat where "POLLING_TIMEOUT = 20"
definition GPIO_TRIGGER_CONFIG :: "16 word" where "GPIO_TRIGGER_CONFIG = 0x9100"
definition FF_MAX_EFFECTS :: nat where "FF_MAX_EFFECTS = 0x60"
definition VIBE_STATE_STOPPED :: nat where "VIBE_STATE_STOPPED = 0"
definition VIBE_STATE_HAPTIC :: nat where "VIBE_STATE_HAPTIC = 1"

subsection \<open>Gain\<close>

definition setEffectAmplitude :: "Env \<Rightarrow> fval \<Rightarrow> fval \<Rightarrow> Vibrator \<Rightarrow> fault + (status \<times> Vibrator)" where
  "setEffectAmplitude env amplitude maximum v =
     bnd (amplitudeToScale amplitude maximum) (\<lambda>scale.
       let v1 = logcall (SetFFGain Base scale) v
       in if \<not> setFFGain (mHwApiDef env) scale then Inr (EX_ILLEGAL_STATE, v1)
          else if mIsDual v1 then
            (let v2 = logcall (SetFFGain Flip scale) v1
             in if \<not> setFFGain (mHwApiDual env) scale then Inr (EX_ILLEGAL_STATE, v2)
                else Inr (STATUS_OK, v2))
          else Inr (STATUS_OK, v1))"

definition setGlobalAmplitude :: "Env \<Rightarrow> bool \<Rightarrow> Vibrator \<Rightarrow> fault + (status \<times> Vibrator)" where
  "setGlobalAmplitude env set_it v =
     bnd (float_to_unsigned 8
            (if set_it then roundf (fmul (mLongEffectScale v) (float_of_int (uint (snd (mLongEffectVol v)))))
             else float_of_int (int VOLTAGE_SCALE_MAX))) (\<lambda>amplitude.
       let v1 = (if \<not> set_it then v\<lparr>mLongEffectScale := Fin 1\<rparr> else v)
       in setEffectAmplitude env (float_of_int amplitude) (float_of_int (int VOLTAGE_SCALE_MAX)) v1)"

subsection \<open>Starting an effect: on(timeoutMs, effectIndex, ch, callback)\<close>

text \<open>
  The three blocks of \<open>on\<close>. A block answers \<open>Inl\<close> with the status of an early
  \<open>return\<close>, or lets the function go on. The blob handed to the driver is \<open>front()\<close>
  and \<open>size()\<close>: the first \<open>bytes\<close> bytes of \<open>head\<close>.
\<close>

definition set_trigger :: "nat \<Rightarrow> (nat \<Rightarrow> ff_effect) \<Rightarrow> (nat \<Rightarrow> ff_effect)" where
  "set_trigger i tab = tab(i := (tab i)\<lparr>trigger_button := GPIO_TRIGGER_CONFIG OR of_nat i\<rparr>)"

text \<open>The block \<open>if (mGPIOStatus && mIsDual) { ... }\<close> that arms the triggers of both tables.\<close>

definition on_arm_trigger :: "nat \<Rightarrow> Vibrator \<Rightarrow> Vibrator" where
  "on_arm_trigger effectIndex v =
     (if mGPIOStatus v \<and> mIsDual v
      then v\<lparr>mFfEffects := set_trigger effectIndex (mFfEffects v),
             mFfEffectsDual := set_trigger effectIndex (mFfEffectsDual v)\<rparr>
      else v)"

text \<open>
  The upload. The second upload takes \<open>&mFfEffectsDual[effectIndex]\<close> with the index
  that the first upload stored in \<open>effectIndex\<close>; every other index of the block is
  \<open>WAVEFORM_COMPOSE\<close> or \<open>WAVEFORM_PWLE\<close>, within the tables.
\<close>

definition on_upload :: "Env \<Rightarrow> DspMemChunk \<Rightarrow> Vibrator \<Rightarrow> fault + ((status + nat) \<times> Vibrator)" where
  "on_upload env ch v =
     (if waveformType ch \<noteq> WAVEFORM_PWLE \<and> waveformType ch \<noteq> WAVEFORM_COMPOSE
      then Inr (Inl EX_ILLEGAL_ARGUMENT, v)
      else
        let effectIndex = waveformType ch;
            v1 = logcall (GetOwtFreeSpace Base) v
        in if unat (getOwtFreeSpace (mHwApiDef env)) < bytes ch then Inr (Inl EX_ILLEGAL_ARGUMENT, v1)
           else
             let v2 = (if mIsDual v1 then logcall (GetOwtFreeSpace Flip) v1 else v1)
             in if mIsDual v1 \<and> unat (getOwtFreeSpace (mHwApiDual env)) < bytes ch
                then Inr (Inl EX_ILLEGAL_ARGUMENT, v2)
                else
                  let v3 = on_arm_trigger effectIndex v2;
                      blob = take (bytes ch) (head ch)
                  in case uploadOwtEffect (mHwApiDef env) blob (mFfEffects v3 effectIndex) effectIndex of
                       (ok, eff, idx1, err) \<Rightarrow>
                         let v4 = logcall (UploadOwtEffect Base blob effectIndex)
                                    (v3\<lparr>mFfEffects := (mFfEffects v3)(effectIndex := eff)\<rparr>)
                         in if \<not> ok then Inr (Inl err, v4)
                            else if mIsDual v4 then
                              (if WAVEFORM_MAX_INDEX \<le> idx1 then Inl VectorIndexOutOfRange
                               else
                                 case uploadOwtEffect (mHwApiDual env) blob (mFfEffectsDual v4 idx1) idx1 of
                                   (ok2, eff2, idx2, err2) \<Rightarrow>
                                     let v5 = logcall (UploadOwtEffect Flip blob idx1)
                                                (v4\<lparr>mFfEffectsDual := (mFfEffectsDual v4)(idx1 := eff2)\<rparr>)
                                     in if \<not> ok2 then Inr (Inl err2, v5) else Inr (Inr idx2, v5))
                            else Inr (Inr idx1, v4))"

definition on_edit :: "Env \<Rightarrow> 32 word \<Rightarrow> nat \<Rightarrow> Vibrator \<Rightarrow> (status + nat) \<times> Vibrator" where
  "on_edit env timeoutMs effectIndex v =
     (if effectIndex = WAVEFORM_SHORT_VIBRATION_EFFECT_INDEX
         \<or> effectIndex = WAVEFORM_LONG_VIBRATION_EFFECT_INDEX then
        let t16 = (ucast timeoutMs :: 16 word);
            v1 = v\<lparr>mFfEffects := (mFfEffects v)(effectIndex := (mFfEffects v effectIndex)\<lparr>replay_length := t16\<rparr>)\<rparr>;
            v2 = on_arm_trigger effectIndex v1
        in case setFFEffect (mHwApiDef env) (mFfEffects v2 effectIndex) t16 of
             (ok, eff) \<Rightarrow>
               let v3 = logcall (SetFFEffect Base effectIndex t16)
                          (v2\<lparr>mFfEffects := (mFfEffects v2)(effectIndex := eff)\<rparr>)
               in if \<not> ok then (Inl EX_ILLEGAL_STATE, v3)
                  else if mIsDual v3 then
                    (let v4 = v3\<lparr>mFfEffectsDual := (mFfEffectsDual v3)
                                 (effectIndex := (mFfEffectsDual v3 effectIndex)\<lparr>replay_length := t16\<rparr>)\<rparr>
                     in case setFFEffect (mHwApiDual env) (mFfEffectsDual v4 effectIndex) t16 of
                          (ok2, eff2) \<Rightarrow>
                            let v5 = logcall (SetFFEffect Flip effectIndex t16)
                                       (v4\<lparr>mFfEffectsDual := (mFfEffectsDual v4)(effectIndex := eff2)\<rparr>)
                            in if \<not> ok2 then (Inl EX_ILLEGAL_STATE, v5) else (Inr effectIndex, v5))
                  else (Inr effectIndex, v3)
      else (Inr effectIndex, v))"

text \<open>The GPIO path re-arms the trigger of the click and light-tick waveforms first.\<close>

definition on_gpio_edit :: "Env \<Rightarrow> nat \<Rightarrow> Vibrator \<Rightarrow> status option \<times> Vibrator" where
  "on_gpio_edit env effectIndex v =
     (if effectIndex = WAVEFORM_CLICK_INDEX \<or> effectIndex = WAVEFORM_LIGHT_TICK_INDEX then
        let v1 = v\<lparr>mFfEffects := set_trigger effectIndex (mFfEffects v)\<rparr>;
            len = replay_length (mFfEffects v1 effectIndex)
        in case setFFEffect (mHwApiDef env) (mFfEffects v1 effectIndex) len of
             (ok, eff) \<Rightarrow>
               let v2 = logcall (SetFFEffect Base effectIndex len)
                          (v1\<lparr>mFfEffects := (mFfEffects v1)(effectIndex := eff)\<rparr>)
               in if \<not> ok then (Some EX_ILLEGAL_STATE, v2)
                  else if mIsDual v2 then
                    (let v3 = v2\<lparr>mFfEffectsDual := set_trigger effectIndex (mFfEffectsDual v2)\<rparr>;
                         len2 = replay_length (mFfEffectsDual v3 effectIndex)
                     in case setFFEffect (mHwApiDual env) (mFfEffectsDual v3 effectIndex) len2 of
                          (ok2, eff2) \<Rightarrow>
                            let v4 = logcall (SetFFEffect Flip effectIndex len2)
                                       (v3\<lparr>mFfEffectsDual := (mFfEffectsDual v3)(effectIndex := eff2)\<rparr>)
                            in if \<not> ok2 then (Some EX_ILLEGAL_STATE, v4) else (None, v4))
                  else (None, v2)
      else (None, v))"

definition on_play :: "Env \<Rightarrow> nat \<Rightarrow> Vibrator \<Rightarrow> status option \<times> Vibrator" where
  "on_play env effectIndex v =
     (let v1 = v\<lparr>mActiveId := int effectIndex\<rparr>
      in if \<not> mGPIOStatus v1 then
           (let v2 = logcall (SetFFPlay Base (int effectIndex) True) v1
            in if \<not> setFFPlay (mHwApiDef env) (int effectIndex) True
               then (Some EX_ILLEGAL_STATE, v2\<lparr>mActiveId := - 1\<rparr>)
               else if mIsDual v2 then
                 (let v3 = logcall (SetFFPlay Flip (int effectIndex) True) v2
                  in if \<not> setFFPlay (mHwApiDual env) (int effectIndex) True
                     then (Some EX_ILLEGAL_STATE, v3\<lparr>mActiveId := - 1\<rparr>)
                     else (None, v3))
               else (None, v2))
         else
           (case on_gpio_edit env effectIndex v1 of
              (Some st, v2) \<Rightarrow> (Some st, v2)
            | (None, v2) \<Rightarrow>
                let v3 = logcall (SetGPIOOutput True) v2
                in if \<not> setGPIOOutput env True then (Some EX_ILLEGAL_STATE, v3) else (None, v3)))"

definition Vibrator_on ::
    "Env \<Rightarrow> 32 word \<Rightarrow> nat \<Rightarrow> DspMemChunk option \<Rightarrow> bool option \<Rightarrow> Vibrator
       \<Rightarrow> fault + (status \<times> Vibrator)" where
  "Vibrator_on env timeoutMs effectIndex ch callback v =
     (if FF_MAX_EFFECTS \<le> effectIndex then Inr (EX_ILLEGAL_ARGUMENT, v)
      else if \<not> asyncReady env then Inr (EX_ILLEGAL_STATE, v)
      else
        bnd (case ch of Some c \<Rightarrow> on_upload env c v
                      | None \<Rightarrow> Inr (on_edit env timeoutMs effectIndex v)) (\<lambda>r.
          case r of
            (Inl st, v1) \<Rightarrow> Inr (st, v1)
          | (Inr idx, v1) \<Rightarrow>
              (case on_play env idx v1 of
                 (Some st, v2) \<Rightarrow> Inr (st, v2)
               | (None, v2) \<Rightarrow> Inr (STATUS_OK, v2\<lparr>mAsyncHandle := Some callback\<rparr>))))"

definition performEffect ::
    "Env \<Rightarrow> nat \<Rightarrow> 32 word \<Rightarrow> DspMemChunk option \<Rightarrow> bool option \<Rightarrow> Vibrator \<Rightarrow> fault + (status \<times> Vibrator)" where
  "performEffect env effectIndex volLevel ch callback v =
     bnd (setEffectAmplitude env (float_of_int (uint volLevel)) (float_of_int (int VOLTAGE_SCALE_MAX)) v)
       (\<lambda>(st, v1). Vibrator_on env (of_nat MAX_TIME_MS) effectIndex ch callback v1)"

subsection \<open>Stopping: off()\<close>

definition off_stop :: "Env \<Rightarrow> Vibrator \<Rightarrow> (status + bool) \<times> Vibrator" where
  "off_stop env v =
     (if 0 \<le> mActiveId v then
        let v1 = logcall (SetFFPlay Base (mActiveId v) False) v;
            ret1 = setFFPlay (mHwApiDef env) (mActiveId v) False;
            v2 = (if mIsDual v1 then logcall (SetFFPlay Flip (mActiveId v1) False) v1 else v1);
            ret2 = (if mIsDual v1 \<and> \<not> setFFPlay (mHwApiDual env) (mActiveId v1) False then False else ret1);
            v3 = logcall (SetGPIOOutput False) v2
        in if \<not> setGPIOOutput env False then (Inl EX_ILLEGAL_STATE, v3) else (Inr ret2, v3)
      else (Inr True, v))"

definition off_f0 :: "Env \<Rightarrow> Vibrator \<Rightarrow> Vibrator" where
  "off_f0 env v =
     (if mF0Offset v \<noteq> 0 then
        let v1 = logcall (SetF0Offset Base 0) v
        in if mIsDual v1 \<and> mF0OffsetDual v1 \<noteq> 0 then logcall (SetF0Offset Flip 0) v1 else v1
      else v)"

definition off :: "Env \<Rightarrow> Vibrator \<Rightarrow> fault + (status \<times> Vibrator)" where
  "off env v =
     (case off_stop env v of
        (Inl st, v1) \<Rightarrow> Inr (st, v1)
      | (Inr ret, v1) \<Rightarrow>
          bnd (setGlobalAmplitude env False v1) (\<lambda>(st, v2).
            let v3 = off_f0 env v2
            in if ret then Inr (STATUS_OK, v3\<lparr>mActiveId := - 1\<rparr>) else Inr (EX_ILLEGAL_STATE, v3)))"

subsection \<open>The completion task: waitForComplete(callback)\<close>

text \<open>The statements of \<open>waitForComplete\<close>, block by block in the order of the source.\<close>

definition wfc_poll :: "Env \<Rightarrow> Vibrator \<Rightarrow> Vibrator" where
  "wfc_poll env v =
     (let v1 = logcall (PollVibeState Base VIBE_STATE_HAPTIC) v;
          v2 = logcall (PollVibeState Base VIBE_STATE_STOPPED) v1
      in if mIsDual v2 then logcall (PollVibeState Flip VIBE_STATE_STOPPED) v2 else v2)"

definition wfc_erase_active :: "Env \<Rightarrow> Vibrator \<Rightarrow> Vibrator" where
  "wfc_erase_active env v =
     (if int WAVEFORM_MAX_PHYSICAL_INDEX \<le> mActiveId v then
        let v1 = logcall (EraseOwtEffect Base (mActiveId v))
                   (v\<lparr>mFfEffects := snd (eraseOwtEffect (mHwApiDef env) (mActiveId v) (mFfEffects v))\<rparr>)
        in if mIsDual v1 then
             logcall (EraseOwtEffect Flip (mActiveId v1))
               (v1\<lparr>mFfEffectsDual := snd (eraseOwtEffect (mHwApiDual env) (mActiveId v1) (mFfEffectsDual v1))\<rparr>)
           else v1
      else v)"







subsection \<open>Capabilities\<close>

definition hasHapticAlsaDevice :: "Env \<Rightarrow> Vibrator \<Rightarrow> bool \<times> Vibrator" where
  "hasHapticAlsaDevice env v =
     (let v1 = (if \<not> mConfigHapticAlsaDeviceDone v then
                  (let v0 = logcall GetHapticAlsaDevice v
                   in if getHapticAlsaDevice (mHwApiDef env)
                      then v0\<lparr>mHasHapticAlsaDevice := True, mConfigHapticAlsaDeviceDone := True\<rparr>
                      else v0)
                else v)
      in (mHasHapticAlsaDevice v1, v1))"

definition getCapabilities :: "Env \<Rightarrow> Vibrator \<Rightarrow> capability set \<times> Vibrator" where
  "getCapabilities env v =
     (let ret0 = {CAP_ON_CALLBACK, CAP_PERFORM_CALLBACK, CAP_AMPLITUDE_CONTROL,
                  CAP_GET_RESONANT_FREQUENCY, CAP_GET_Q_FACTOR}
      in case hasHapticAlsaDevice env v of
           (alsa, v1) \<Rightarrow>
             let ret1 = (if alsa then insert CAP_EXTERNAL_CONTROL ret0 else ret0);
                 v2 = logcall HasOwtFreeSpace v1;
                 ret2 = (if hasOwtFreeSpace (mHwApiDef env) then
                           (let r = insert CAP_COMPOSE_EFFECTS ret1
                            in if mIsChirpEnabled v2
                               then insert CAP_FREQUENCY_CONTROL (insert CAP_COMPOSE_PWLE_EFFECTS r)
                               else r)
                         else ret1)
             in (ret2, v2))"

definition getSupportedBraking :: "Env \<Rightarrow> Vibrator \<Rightarrow> (status \<times> int list) \<times> Vibrator" where
  "getSupportedBraking env v =
     (case getCapabilities env v of
        (capabilities, v1) \<Rightarrow>
          if CAP_COMPOSE_PWLE_EFFECTS \<in> capabilities then ((STATUS_OK, [Braking_NONE]), v1)
          else ((EX_UNSUPPORTED_OPERATION, []), v1))"

subsection \<open>compose\<close>

definition getPrimitiveDetails :: "Vibrator \<Rightarrow> CompositePrimitive \<Rightarrow> status + nat" where
  "getPrimitiveDetails v p =
     (let primitiveBit = (push_bit (primitive_value p) 1 :: 32 word)
      in if primitiveBit AND mSupportedPrimitivesBits v = 0 then Inl EX_UNSUPPORTED_OPERATION
         else case p of
                NOOP \<Rightarrow> Inl EX_ILLEGAL_ARGUMENT
              | CLICK \<Rightarrow> Inr WAVEFORM_CLICK_INDEX
              | THUD \<Rightarrow> Inr WAVEFORM_THUD_INDEX
              | SPIN \<Rightarrow> Inr WAVEFORM_SPIN_INDEX
              | QUICK_RISE \<Rightarrow> Inr WAVEFORM_QUICK_RISE_INDEX
              | SLOW_RISE \<Rightarrow> Inr WAVEFORM_SLOW_RISE_INDEX
              | QUICK_FALL \<Rightarrow> Inr WAVEFORM_QUICK_FALL_INDEX
              | LIGHT_TICK \<Rightarrow> Inr WAVEFORM_LIGHT_TICK_INDEX
              | LOW_TICK \<Rightarrow> Inr WAVEFORM_LOW_TICK_INDEX)"

text \<open>
  The lambda \<open>calc\<close> of \<open>intensityToVolLevel\<close>: the \<open>long\<close> that \<open>lround\<close> returns
  plus \<open>v[0]\<close>, an addition of \<open>long\<close> that overflows only when \<open>lround\<close> returned
  an unspecified value next to \<open>LONG_MAX\<close>, converted to \<open>uint32_t\<close>.
\<close>

definition calc :: "(fval \<Rightarrow> 64 word) \<Rightarrow> fval \<Rightarrow> 32 word \<times> 32 word \<Rightarrow> fault + 32 word" where
  "calc unspecified intst vol =
     (let l = lround unspecified (fmul intst (float_of_int (uint (snd vol - fst vol))));
          s = l + uint (fst vol)
      in if 2 ^ 63 \<le> s then Inl SignedOverflow else Inr (word_of_int s))"

definition intensityToVolLevel :: "Env \<Rightarrow> Vibrator \<Rightarrow> fval \<Rightarrow> nat \<Rightarrow> fault + 32 word" where
  "intensityToVolLevel env v intensity effectIndex =
     (if effectIndex = WAVEFORM_LIGHT_TICK_INDEX then calc (lroundUnspecified env) intensity (mTickEffectVol v)
      else if effectIndex = WAVEFORM_QUICK_RISE_INDEX \<or> effectIndex = WAVEFORM_QUICK_FALL_INDEX
      then calc (lroundUnspecified env) intensity (mLongEffectVol v)
      else calc (lroundUnspecified env) intensity (mClickEffectVol v))"

text \<open>
  The body of the loop of \<open>compose\<close> in three parts: the primitive of the current step
  (effect index, volume level and the running \<open>totalDuration\<close>), the delay of the next
  step, and the segment. \<open>Inr (Inl st)\<close> is \<open>return st\<close>.
\<close>

definition compose_primitive ::
    "Env \<Rightarrow> Vibrator \<Rightarrow> CompositeEffect \<Rightarrow> 16 word \<Rightarrow> fault + (status + (nat \<times> 32 word \<times> 16 word))" where
  "compose_primitive env v e_curr totalDuration =
     (if primitive e_curr \<noteq> NOOP then
        (case getPrimitiveDetails v (primitive e_curr) of
           Inl st \<Rightarrow> Inr (Inl st)
         | Inr effectIndex \<Rightarrow>
             let mx = mPrimitiveMaxScale ! primitive_value (primitive e_curr);
                 mn = mPrimitiveMinScale ! primitive_value (primitive e_curr);
                 s1 = (if fgreater (scale e_curr) mx then mx else scale e_curr);
                 s2 = (if fless s1 mn then mn else s1)
             in bnd (intensityToVolLevel env v s2 effectIndex) (\<lambda>effectVolLevel.
                  Inr (Inr (effectIndex, effectVolLevel,
                            totalDuration + of_nat (mEffectDurations ! effectIndex)))))
      else Inr (Inr (0, 0, totalDuration)))"

definition compose_next_delay :: "CompositeEffect option \<Rightarrow> 16 word \<Rightarrow> status + (16 word \<times> 16 word)" where
  "compose_next_delay e_next totalDuration =
     (case e_next of
        None \<Rightarrow> Inr (0, totalDuration)
      | Some e \<Rightarrow>
          if COMPOSE_DELAY_MAX_MS < delayMs e \<or> delayMs e < 0 then Inl EX_ILLEGAL_ARGUMENT
          else Inr (word_of_int (delayMs e), totalDuration + word_of_int (delayMs e)))"

definition compose_body ::
    "Env \<Rightarrow> Vibrator \<Rightarrow> CompositeEffect \<Rightarrow> CompositeEffect option \<Rightarrow> 16 word \<times> DspMemChunk
       \<Rightarrow> fault + (status + (16 word \<times> DspMemChunk))" where
  "compose_body env v e_curr e_next st =
     (case st of (totalDuration, ch) \<Rightarrow>
        if fless (scale e_curr) (Fin 0) \<or> fgreater (scale e_curr) (Fin 1) then Inr (Inl EX_ILLEGAL_ARGUMENT)
        else
          bnd (compose_primitive env v e_curr totalDuration) (\<lambda>r.
            case r of
              Inl s \<Rightarrow> Inr (Inl s)
            | Inr (effectIndex, effectVolLevel, td1) \<Rightarrow>
                (case compose_next_delay e_next td1 of
                   Inl s \<Rightarrow> Inr (Inl s)
                 | Inr (nextEffectDelay, td2) \<Rightarrow>
                     if effectIndex = 0 \<and> nextEffectDelay = 0 then Inr (Inl EX_ILLEGAL_ARGUMENT)
                     else
                       bnd (constructComposeSegment effectVolLevel (of_nat effectIndex) 0 0
                              nextEffectDelay ch)
                         (\<lambda>(rc, ch'). Inr (Inr (td2, ch'))))))"

fun compose_loop ::
    "Env \<Rightarrow> Vibrator \<Rightarrow> CompositeEffect list \<Rightarrow> 16 word \<times> DspMemChunk
       \<Rightarrow> fault + (status + (16 word \<times> DspMemChunk))" where
  "compose_loop env v [] st = Inr (Inr st)"
| "compose_loop env v (e_curr # es) st =
     bnd (compose_body env v e_curr (case es of [] \<Rightarrow> None | e_next # _ \<Rightarrow> Some e_next) st) (\<lambda>r.
       case r of Inl s \<Rightarrow> Inr (Inl s) | Inr st' \<Rightarrow> compose_loop env v es st')"

text \<open>
  \<open>compose\<close> up to the call of \<open>performEffect\<close>: the status of an early \<open>return\<close>, or
  the finished blob. \<open>nextEffectDelay\<close>, \<open>size\<close> and \<open>totalDuration\<close> are
  \<open>uint16_t\<close>, \<open>header_count\<close> is \<open>uint8_t\<close>.
\<close>

definition compose_build :: "Env \<Rightarrow> Vibrator \<Rightarrow> CompositeEffect list \<Rightarrow> fault + (status + DspMemChunk)" where
  "compose_build env v composite =
     (if COMPOSE_SIZE_MAX < length composite \<or> composite = [] then Inr (Inl EX_ILLEGAL_ARGUMENT)
      else
        let nextEffectDelay = (word_of_int (delayMs (hd composite)) :: 16 word);
            totalDuration = (0 + nextEffectDelay :: 16 word)
        in if COMPOSE_DELAY_MAX_MS < uint nextEffectDelay \<or> uint nextEffectDelay < 0
           then Inr (Inl EX_ILLEGAL_ARGUMENT)
           else
             let sz = (if 0 < uint nextEffectDelay then of_nat (length composite + 1)
                       else of_nat (length composite) :: 16 word)
             in bnd (new_DspMemChunk WAVEFORM_COMPOSE FF_CUSTOM_DATA_LEN_MAX_COMP) (\<lambda>ch0.
                  let header_count = (of_nat (bytes ch0) :: 8 word)
                  in bnd (if nextEffectDelay \<noteq> 0
                          then constructComposeSegment 0 0 0 0 nextEffectDelay ch0
                          else Inr (0, ch0)) (\<lambda>(rc, ch1).
                     bnd (compose_loop env v composite (totalDuration, ch1)) (\<lambda>r.
                       case r of
                         Inl s \<Rightarrow> Inr (Inl s)
                       | Inr (td, ch2) \<Rightarrow>
                           bnd (flush ch2) (\<lambda>(rc1, ch3).
                           bnd (updateNSection (uint sz) ch3) (\<lambda>(rc2, ch4).
                             if rc2 < 0 then Inr (Inl EX_ILLEGAL_ARGUMENT)
                             else if unat header_count = bytes ch4 then Inr (Inl EX_ILLEGAL_ARGUMENT)
                             else Inr (Inr ch4)))))))"

definition compose :: "Env \<Rightarrow> CompositeEffect list \<Rightarrow> bool option \<Rightarrow> Vibrator \<Rightarrow> fault + (status \<times> Vibrator)" where
  "compose env composite callback v =
     bnd (compose_build env v composite) (\<lambda>r.
       case r of
         Inl s \<Rightarrow> Inr (s, v)
       | Inr ch \<Rightarrow>
           let v1 = v\<lparr>mFfEffects := (mFfEffects v)
                       (WAVEFORM_COMPOSE := (mFfEffects v WAVEFORM_COMPOSE)\<lparr>replay_length := 0\<rparr>)\<rparr>;
               v2 = (if mIsDual v1
                     then v1\<lparr>mFfEffectsDual := (mFfEffectsDual v1)
                               (WAVEFORM_COMPOSE := (mFfEffectsDual v1 WAVEFORM_COMPOSE)\<lparr>replay_length := 0\<rparr>)\<rparr>
                     else v1)
           in performEffect env WAVEFORM_MAX_INDEX (of_nat VOLTAGE_SCALE_MAX) (Some ch) callback v2)"

subsection \<open>performEffect(effect, strength): the blob of DOUBLE_CLICK\<close>

text \<open>
  The enumerators of \<open>Effect\<close> and \<open>EffectStrength\<close> that the file names; every other
  value takes the \<open>default\<close> branch of a \<open>switch\<close>.
\<close>

datatype Effect = Effect_CLICK | Effect_DOUBLE_CLICK | Effect_TICK | Effect_HEAVY_CLICK
  | Effect_TEXTURE_TICK | Effect_OTHER

datatype EffectStrength = LIGHT | MEDIUM | STRONG | Strength_OTHER

definition WAVEFORM_DOUBLE_CLICK_SILENCE_MS :: nat where "WAVEFORM_DOUBLE_CLICK_SILENCE_MS = 100"
definition MAX_PAUSE_TIMING_ERROR_MS :: nat where "MAX_PAUSE_TIMING_ERROR_MS = 1"

text \<open>
  \<open>getSimpleDetails(effect, strength, outEffectIndex, outTimeMs, outVolLevel)\<close>: the
  status of an early \<open>return\<close>, or the three values stored through the pointers.
\<close>

definition getSimpleDetails ::
    "Env \<Rightarrow> Vibrator \<Rightarrow> Effect \<Rightarrow> EffectStrength \<Rightarrow> fault + (status + (nat \<times> 32 word \<times> 32 word))" where
  "getSimpleDetails env v effect strength =
     (case (case strength of
              LIGHT \<Rightarrow> Some (rnd32 (5 / 10))
            | MEDIUM \<Rightarrow> Some (rnd32 (7 / 10))
            | STRONG \<Rightarrow> Some (Fin 1)
            | Strength_OTHER \<Rightarrow> None) of
        None \<Rightarrow> Inr (Inl EX_UNSUPPORTED_OPERATION)
      | Some intensity0 \<Rightarrow>
          (case (case effect of
                   Effect_TEXTURE_TICK \<Rightarrow> Some (WAVEFORM_LIGHT_TICK_INDEX, fmul intensity0 (rnd32 (5 / 10)))
                 | Effect_TICK \<Rightarrow> Some (WAVEFORM_CLICK_INDEX, fmul intensity0 (rnd32 (5 / 10)))
                 | Effect_CLICK \<Rightarrow> Some (WAVEFORM_CLICK_INDEX, fmul intensity0 (rnd32 (7 / 10)))
                 | Effect_HEAVY_CLICK \<Rightarrow>
                     let i1 = fmul intensity0 (Fin 1);
                         mx = mPrimitiveMaxScale ! (WAVEFORM_CLICK_INDEX - 1)
                     in Some (WAVEFORM_CLICK_INDEX, if fgreater i1 mx then mx else i1)
                 | _ \<Rightarrow> None) of
             None \<Rightarrow> Inr (Inl EX_UNSUPPORTED_OPERATION)
           | Some (effectIndex, intensity) \<Rightarrow>
               bnd (intensityToVolLevel env v intensity effectIndex) (\<lambda>volLevel.
                 Inr (Inr (effectIndex,
                           of_nat (mEffectDurations ! effectIndex) + of_nat MAX_COLD_START_LATENCY_MS,
                           volLevel)))))"

text \<open>
  \<open>getCompoundDetails(effect, strength, outTimeMs, outCh)\<close>: the status, the value of
  \<open>*outTimeMs\<close> (written on success only), the chunk \<open>*outCh\<close> and the Vibrator. The
  return values of \<open>constructComposeSegment\<close> and \<open>flush\<close> are dropped.
\<close>

definition getCompoundDetails ::
    "Env \<Rightarrow> Effect \<Rightarrow> EffectStrength \<Rightarrow> 32 word \<Rightarrow> DspMemChunk \<Rightarrow> Vibrator
       \<Rightarrow> fault + (status \<times> 32 word \<times> DspMemChunk \<times> Vibrator)" where
  "getCompoundDetails env effect strength outTimeMs outCh v =
     (case effect of
        Effect_DOUBLE_CLICK \<Rightarrow>
          bnd (getSimpleDetails env v Effect_CLICK strength) (\<lambda>r1.
            case r1 of
              Inl st \<Rightarrow> Inr (st, outTimeMs, outCh, v)
            | Inr (idx1, t1, vol1) \<Rightarrow>
                bnd (constructComposeSegment vol1 (of_nat idx1) 0 0
                       (of_nat WAVEFORM_DOUBLE_CLICK_SILENCE_MS) outCh) (\<lambda>(rc1, ch1).
                let timeMs1 = 0 + t1 + (of_nat WAVEFORM_DOUBLE_CLICK_SILENCE_MS + of_nat MAX_PAUSE_TIMING_ERROR_MS)
                in bnd (getSimpleDetails env v Effect_HEAVY_CLICK strength) (\<lambda>r2.
                     case r2 of
                       Inl st \<Rightarrow> Inr (st, outTimeMs, ch1, v)
                     | Inr (idx2, t2, vol2) \<Rightarrow>
                         bnd (constructComposeSegment vol2 (of_nat idx2) 0 0 0 ch1) (\<lambda>(rc2, ch2).
                         bnd (flush ch2) (\<lambda>(rc3, ch3).
                         bnd (updateNSection 2 ch3) (\<lambda>(rc4, ch4).
                           if rc4 < 0 then Inr (EX_ILLEGAL_ARGUMENT, outTimeMs, ch4, v)
                           else
                             let v1 = v\<lparr>mFfEffects := (mFfEffects v)
                                         (WAVEFORM_COMPOSE := (mFfEffects v WAVEFORM_COMPOSE)\<lparr>replay_length := 0\<rparr>)\<rparr>;
                                 v2 = (if mIsDual v1
                                       then v1\<lparr>mFfEffectsDual := (mFfEffectsDual v1)
                                                 (WAVEFORM_COMPOSE := (mFfEffectsDual v1 WAVEFORM_COMPOSE)\<lparr>replay_length := 0\<rparr>)\<rparr>
                                       else v1)
                             in Inr (STATUS_OK, timeMs1 + t2, ch4, v2)))))))
      | _ \<Rightarrow> Inr (EX_UNSUPPORTED_OPERATION, outTimeMs, outCh, v))"

text \<open>
  The chunk of \<open>performEffect(Effect::DOUBLE_CLICK, strength, ...)\<close>: constructed by
  \<open>maybeCh.emplace(WAVEFORM_COMPOSE, FF_CUSTOM_DATA_LEN_MAX_COMP)\<close> and filled by
  \<open>getCompoundDetails\<close>, with the status that decides whether it is handed on to
  \<open>performEffect(effectIndex, volLevel, ch, callback)\<close>.
\<close>

definition doubleClick_build :: "Env \<Rightarrow> Vibrator \<Rightarrow> EffectStrength \<Rightarrow> fault + (status \<times> DspMemChunk)" where
  "doubleClick_build env v strength =
     bnd (new_DspMemChunk WAVEFORM_COMPOSE FF_CUSTOM_DATA_LEN_MAX_COMP) (\<lambda>maybeCh.
       bnd (getCompoundDetails env Effect_DOUBLE_CLICK strength 0 maybeCh v) (\<lambda>(st, timeMs, ch, v').
         Inr (st, ch)))"

subsection \<open>composePwle\<close>

record pwle_locals =
  segmentIdx :: int
  totalDuration :: "32 word"
  prevEndAmplitude :: fval
  prevEndFrequency :: fval
  pwle_ch :: DspMemChunk

definition resetPreviousEndAmplitudeEndFrequency :: "pwle_locals \<Rightarrow> pwle_locals" where
  "resetPreviousEndAmplitudeEndFrequency st = st\<lparr>prevEndAmplitude := Fin (- 1), prevEndFrequency := Fin (- 1)\<rparr>"

text \<open>The clamp of an amplitude to the device ceiling.\<close>

definition clamp_level :: "fval \<Rightarrow> fval" where
  "clamp_level a = (if fgreater a CS40L26_PWLE_LEVEL_MAX then CS40L26_PWLE_LEVEL_MAX else a)"

text \<open>The set-point segment of an active primitive, written when its start differs from the tracked end.\<close>

definition pwle_set_point :: "fval \<Rightarrow> fval \<Rightarrow> pwle_locals \<Rightarrow> fault + (status + (DspMemChunk \<times> int))" where
  "pwle_set_point startAmp startFreq st =
     (if \<not> (feq startAmp (prevEndAmplitude st) \<and> feq startFreq (prevEndFrequency st)) then
        bnd (constructActiveSegment 0 startAmp startFreq False (pwle_ch st)) (\<lambda>(rc, ch1).
          if rc < 0 then Inr (Inl EX_ILLEGAL_ARGUMENT) else Inr (Inr (ch1, segmentIdx st + 1)))
      else Inr (Inr (pwle_ch st, segmentIdx st)))"

definition pwle_active ::
    "fval \<Rightarrow> fval \<Rightarrow> fval \<Rightarrow> fval \<Rightarrow> int \<Rightarrow> pwle_locals \<Rightarrow> fault + (status + pwle_locals)" where
  "pwle_active startAmplitude0 startFrequency0 endAmplitude0 endFrequency0 duration0 st =
     (if duration0 < 0 \<or> COMPOSE_PWLE_PRIMITIVE_DURATION_MAX_MS < duration0 then Inr (Inl EX_ILLEGAL_ARGUMENT)
      else if fless startAmplitude0 PWLE_LEVEL_MIN \<or> fgreater startAmplitude0 PWLE_LEVEL_MAX
              \<or> fless endAmplitude0 PWLE_LEVEL_MIN \<or> fgreater endAmplitude0 PWLE_LEVEL_MAX
      then Inr (Inl EX_ILLEGAL_ARGUMENT)
      else
        let startAmp = clamp_level startAmplitude0;
            endAmp = clamp_level endAmplitude0
        in if fless startFrequency0 PWLE_FREQUENCY_MIN_HZ \<or> fgreater startFrequency0 PWLE_FREQUENCY_MAX_HZ
              \<or> fless endFrequency0 PWLE_FREQUENCY_MIN_HZ \<or> fgreater endFrequency0 PWLE_FREQUENCY_MAX_HZ
           then Inr (Inl EX_ILLEGAL_ARGUMENT)
           else
             bnd (pwle_set_point startAmp startFrequency0 st) (\<lambda>r.
               case r of
                 Inl s \<Rightarrow> Inr (Inl s)
               | Inr (ch1, idx1) \<Rightarrow>
                   let chirp = (\<not> feq startFrequency0 endFrequency0)
                   in bnd (constructActiveSegment duration0 endAmp endFrequency0 chirp ch1) (\<lambda>(rc, ch2).
                        if rc < 0 then Inr (Inl EX_ILLEGAL_ARGUMENT)
                        else Inr (Inr \<lparr>segmentIdx = idx1 + 1,
                                       totalDuration = totalDuration st + word_of_int duration0,
                                       prevEndAmplitude = endAmp,
                                       prevEndFrequency = endFrequency0,
                                       pwle_ch = ch2\<rparr>))))"

definition pwle_braking :: "bool \<Rightarrow> int \<Rightarrow> int \<Rightarrow> pwle_locals \<Rightarrow> fault + (status + pwle_locals)" where
  "pwle_braking isClabSupported braking0 duration0 st =
     (if Braking_CLAB < braking0 then Inr (Inl EX_ILLEGAL_ARGUMENT)
      else if \<not> isClabSupported \<and> braking0 = Braking_CLAB then Inr (Inl EX_ILLEGAL_ARGUMENT)
      else if COMPOSE_PWLE_PRIMITIVE_DURATION_MAX_MS < duration0 then Inr (Inl EX_ILLEGAL_ARGUMENT)
      else
        bnd (constructBrakingSegment 0 braking0 (pwle_ch st)) (\<lambda>(rc1, ch1).
          if rc1 < 0 then Inr (Inl EX_ILLEGAL_ARGUMENT)
          else
            bnd (constructBrakingSegment duration0 braking0 ch1) (\<lambda>(rc2, ch2).
              if rc2 < 0 then Inr (Inl EX_ILLEGAL_ARGUMENT)
              else Inr (Inr (resetPreviousEndAmplitudeEndFrequency
                               (st\<lparr>segmentIdx := segmentIdx st + 2,
                                   totalDuration := totalDuration st + word_of_int duration0,
                                   pwle_ch := ch2\<rparr>))))))"

fun pwle_element :: "bool \<Rightarrow> PrimitivePwle \<Rightarrow> pwle_locals \<Rightarrow> fault + (status + pwle_locals)" where
  "pwle_element isClabSupported (Active sa sf ea ef d) st = pwle_active sa sf ea ef d st"
| "pwle_element isClabSupported (BrakingSeg b d) st = pwle_braking isClabSupported b d st"

definition pwle_body :: "bool \<Rightarrow> PrimitivePwle \<Rightarrow> pwle_locals \<Rightarrow> fault + (status + pwle_locals)" where
  "pwle_body isClabSupported e st =
     bnd (pwle_element isClabSupported e st) (\<lambda>r.
       case r of
         Inl s \<Rightarrow> Inr (Inl s)
       | Inr st' \<Rightarrow>
           if int COMPOSE_PWLE_SIZE_MAX_DEFAULT < segmentIdx st' then Inr (Inl EX_ILLEGAL_ARGUMENT)
           else Inr (Inr st'))"

fun pwle_loop :: "bool \<Rightarrow> PrimitivePwle list \<Rightarrow> pwle_locals \<Rightarrow> fault + (status + pwle_locals)" where
  "pwle_loop isClabSupported [] st = Inr (Inr st)"
| "pwle_loop isClabSupported (e # es) st =
     bnd (pwle_body isClabSupported e st) (\<lambda>r.
       case r of Inl s \<Rightarrow> Inr (Inl s) | Inr st' \<Rightarrow> pwle_loop isClabSupported es st')"

definition pwle_init :: "DspMemChunk \<Rightarrow> pwle_locals" where
  "pwle_init ch = resetPreviousEndAmplitudeEndFrequency
     \<lparr>segmentIdx = 0, totalDuration = 0, prevEndAmplitude = Fin 0, prevEndFrequency = Fin 0, pwle_ch = ch\<rparr>"

definition pwle_finish :: "pwle_locals \<Rightarrow> fault + (status + DspMemChunk)" where
  "pwle_finish st =
     bnd (flush (pwle_ch st)) (\<lambda>(rc, ch1).
       let total = totalDuration st + of_nat MAX_COLD_START_LATENCY_MS
       in if 0x7FFFF < total then Inr (Inl EX_ILLEGAL_ARGUMENT)
          else
            bnd (updateWLength total ch1) (\<lambda>(rc1, ch2).
              if rc1 < 0 then Inr (Inl EX_ILLEGAL_ARGUMENT)
              else
                bnd (updateNSection (segmentIdx st) ch2) (\<lambda>(rc2, ch3).
                  if rc2 < 0 then Inr (Inl EX_ILLEGAL_ARGUMENT) else Inr (Inr ch3))))"

definition composePwle_build :: "bool \<Rightarrow> PrimitivePwle list \<Rightarrow> fault + (status + DspMemChunk)" where
  "composePwle_build isClabSupported composite =
     bnd (new_DspMemChunk WAVEFORM_PWLE FF_CUSTOM_DATA_LEN_MAX_PWLE) (\<lambda>ch0.
       bnd (pwle_loop isClabSupported composite (pwle_init ch0)) (\<lambda>r.
         case r of Inl s \<Rightarrow> Inr (Inl s) | Inr st \<Rightarrow> pwle_finish st))"

definition composePwle :: "Env \<Rightarrow> PrimitivePwle list \<Rightarrow> bool option \<Rightarrow> Vibrator \<Rightarrow> fault + (status \<times> Vibrator)" where
  "composePwle env composite callback v =
     (case getCapabilities env v of
        (capabilities, v1) \<Rightarrow>
          if CAP_COMPOSE_PWLE_EFFECTS \<notin> capabilities then Inr (EX_UNSUPPORTED_OPERATION, v1)
          else if composite = [] \<or> COMPOSE_PWLE_SIZE_MAX_DEFAULT < length composite
          then Inr (EX_ILLEGAL_ARGUMENT, v1)
          else
            case getSupportedBraking env v1 of
              ((st, supported), v2) \<Rightarrow>
                let isClabSupported = (Braking_CLAB \<in> set supported)
                in bnd (composePwle_build isClabSupported composite) (\<lambda>r.
                     case r of
                       Inl s \<Rightarrow> Inr (s, v2)
                     | Inr ch \<Rightarrow>
                         performEffect env WAVEFORM_MAX_INDEX (of_nat VOLTAGE_SCALE_MAX) (Some ch) callback v2))"

section \<open>Concrete devices\<close>

text \<open>
  An idle single-actuator Vibrator with every primitive supported, a driver that accepts
  every call, and variants of both.
\<close>

definition eff0 :: ff_effect where
  "eff0 = \<lparr>ff_id = - 1, replay_length = 0, trigger_button = 0, custom_len = 0\<rparr>"

definition vib0 :: Vibrator where
  "vib0 = \<lparr>mIsDual = False, mGPIOStatus = False, mActiveId = - 1,
     mFfEffects = (\<lambda>i. eff0), mFfEffectsDual = (\<lambda>i. eff0),
     mSupportedPrimitivesBits = 0x1FF,
     mTickEffectVol = (1, 100), mClickEffectVol = (1, 100), mLongEffectVol = (1, 100),
     mLongEffectScale = Fin 1, mF0Offset = 0, mF0OffsetDual = 0, mIsChirpEnabled = True,
     mHasHapticAlsaDevice = False, mConfigHapticAlsaDeviceDone = False,
     mAsyncHandle = None, hwlog = []\<rparr>"

definition hw_ok :: HwApi where
  "hw_ok = \<lparr>hasOwtFreeSpace = True, getHapticAlsaDevice = True, getOwtFreeSpace = 4096,
     uploadOwtEffect = (\<lambda>blob eff idx. (True, eff\<lparr>ff_id := int idx\<rparr>, idx, STATUS_OK)),
     setFFEffect = (\<lambda>eff len. (True, eff)), setFFPlay = (\<lambda>i b. True), setFFGain = (\<lambda>g. True),
     eraseOwtEffect = (\<lambda>i tab. (True, tab)), getEffectCount = Some 14,
     pollVibeState = (\<lambda>s. True)\<rparr>"

definition env_ok :: Env where
  "env_ok = \<lparr>mHwApiDef = hw_ok, mHwApiDual = hw_ok, setGPIOOutput = (\<lambda>b. True), asyncReady = True,
     lroundUnspecified = (\<lambda>x. 0)\<rparr>"

text \<open>A driver whose OWT upload fails, reporting the exception code \<open>EX_ILLEGAL_ARGUMENT\<close>.\<close>

definition hw_upload_rejects :: HwApi where
  "hw_upload_rejects = hw_ok\<lparr>uploadOwtEffect := (\<lambda>blob eff idx. (False, eff, idx, EX_ILLEGAL_ARGUMENT))\<rparr>"

definition env_flip_rejects :: Env where
  "env_flip_rejects = env_ok\<lparr>mHwApiDual := hw_upload_rejects\<rparr>"

definition vib_dual :: Vibrator where
  "vib_dual = vib0\<lparr>mIsDual := True\<rparr>"

text \<open>An idle Vibrator whose amplitude scale was set to one half by \<open>setAmplitude\<close>.\<close>

definition vib_half :: Vibrator where
  "vib_half = vib0\<lparr>mLongEffectScale := Fin (1 / 2)\<rparr>"


text \<open>The chunk as the constructor leaves it for \<open>WAVEFORM_COMPOSE\<close> and for \<open>WAVEFORM_PWLE\<close>.\<close>

definition fresh_compose_chunk :: DspMemChunk where
  "fresh_compose_chunk = \<lparr>head = replicate 2044 0, bytes = 4, waveformType = 14, current = 4,
     max_ptr = 2044, cache = 0, cachebits = 0\<rparr>"

definition fresh_pwle_chunk :: DspMemChunk where
  "fresh_pwle_chunk = \<lparr>head = replicate 2302 0, bytes = 8, waveformType = 15, current = 8,
     max_ptr = 2302, cache = 0, cachebits = 4\<rparr>"

text \<open>The blob of \<open>performEffect(DOUBLE_CLICK, STRONG)\<close> on \<open>vib0\<close>.\<close>

definition double_click_chunk :: DspMemChunk where
  "double_click_chunk = \<lparr>head = [0, 0, 2, 0, 0, 70, 2, 0, 0, 0, 0, 100, 0, 95, 2, 0] @ replicate 2028 0,
     bytes = 20, waveformType = 14, current = 20, max_ptr = 2044, cache = 0, cachebits = 0\<rparr>"

text \<open>A compose chunk whose cursor has reached the end of its array.\<close>

definition full_chunk :: DspMemChunk where
  "full_chunk = fresh_compose_chunk\<lparr>bytes := 2044, current := 2044\<rparr>"

definition click_step :: "int \<Rightarrow> CompositeEffect" where
  "click_step d = \<lparr>delayMs = d, primitive = CLICK, scale = Fin 1\<rparr>"

text \<open>The blob of the one-step composition \<open>[click_step 0]\<close> on \<open>vib0\<close>.\<close>

definition click_chunk :: DspMemChunk where
  "click_chunk = \<lparr>head = (replicate 2044 0)[2 := 1, 5 := 95, 6 := 2], bytes = 12, waveformType = 14,
     current = 12, max_ptr = 2044, cache = 0, cachebits = 0\<rparr>"

text \<open>
  The blob of the PWLE composition of one ramp (100 ms, amplitude 0 to 0.5 at 50 Hz) and
  one braking segment of 20 ms.
\<close>

definition ramp_and_brake :: "PrimitivePwle list" where
  "ramp_and_brake = [Active (Fin 0) (Fin 50) (Fin (1 / 2)) (Fin 50) 100, BrakingSeg 0 20]"

definition pwle_chunk :: DspMemChunk where
  "pwle_chunk = \<lparr>head = [0, 128, 3, 240, 0, 0, 0, 0, 0, 64, 0, 0, 0, 0, 12, 129, 0, 0, 25, 4,
       0, 0, 12, 129, 0, 0, 0, 0, 0, 0, 0, 65, 0, 0, 5, 0, 0, 0, 0, 65, 0, 0, 0, 0] @ replicate 2258 0,
     bytes = 44, waveformType = 15, current = 44, max_ptr = 2302, cache = 0, cachebits = 0\<rparr>"

text \<open>A driver whose OWT upload fails with \<open>EX_ILLEGAL_STATE\<close>, as a failed ioctl is reported.\<close>

definition hw_upload_fails :: HwApi where
  "hw_upload_fails = hw_ok\<lparr>uploadOwtEffect := (\<lambda>blob eff idx. (False, eff, idx, EX_ILLEGAL_STATE))\<rparr>"

definition env_flip_fails :: Env where
  "env_flip_fails = env_ok\<lparr>mHwApiDual := hw_upload_fails\<rparr>"



section \<open>Invariants of the bit writer\<close>

text \<open>
  A chunk is well formed when the cursor stands on a multiple of four and equals the
  running byte length, fewer than 24 bits wait in the accumulator, \<open>_max\<close> is the end of
  the array, and every aligned group of four bytes begins with a zero byte. The number of
  payload bits written so far is 24 for every four bytes stored plus the bits that wait.
\<close>

definition chunk_ok :: "DspMemChunk \<Rightarrow> bool" where
  "chunk_ok ch \<longleftrightarrow>
     4 dvd current ch \<and> bytes ch = current ch \<and> cachebits ch < 24
     \<and> max_ptr ch = length (head ch)
     \<and> (\<forall>i. 4 * i < length (head ch) \<longrightarrow> head ch ! (4 * i) = 0)"

definition bits_written :: "DspMemChunk \<Rightarrow> nat" where
  "bits_written ch = 6 * current ch + cachebits ch"

definition capacity_bits :: "DspMemChunk \<Rightarrow> nat" where
  "capacity_bits ch = 24 * (max_ptr ch div 4)"

text \<open>The faults of the bit writer, as opposed to those of a float conversion.\<close>

definition chunk_fault :: "fault + 'a \<Rightarrow> bool" where
  "chunk_fault r \<longleftrightarrow> r = Inl StoreOutOfBounds \<or> r = Inl ShiftCountOutOfRange"

text \<open>
  \<open>yields Q r\<close>: the outcome \<open>r\<close> is not a fault of the bit writer, and a result it
  holds satisfies \<open>Q\<close>.
\<close>

definition yields :: "('a \<Rightarrow> bool) \<Rightarrow> fault + 'a \<Rightarrow> bool" where
  "yields Q r \<longleftrightarrow> \<not> chunk_fault r \<and> (\<forall>x. r = Inr x \<longrightarrow> Q x)"

text \<open>
  \<open>grown_by n ch ch'\<close>: \<open>ch'\<close> is a well-formed chunk of the same array size and type
  as \<open>ch\<close> that holds at most \<open>n\<close> payload bits more.
\<close>

definition grown_by :: "nat \<Rightarrow> DspMemChunk \<Rightarrow> DspMemChunk \<Rightarrow> bool" where
  "grown_by n ch ch' \<longleftrightarrow>
     chunk_ok ch' \<and> bits_written ch' \<le> bits_written ch + n
     \<and> max_ptr ch' = max_ptr ch \<and> waveformType ch' = waveformType ch"

text \<open>
  One pass through the block \<open>if (_cachebits == 24) { ... }\<close> of \<open>write\<close> when the
  array has room: the accumulator is masked, stored and the counters are advanced.
\<close>

definition flush_word :: "DspMemChunk \<Rightarrow> DspMemChunk" where
  "flush_word ch1 = (let ch2 = store_cache 4 (ch1\<lparr>cache := cache ch1 AND 0xFFFFFF\<rparr>)
                     in ch2\<lparr>bytes := bytes ch2 + 4, cachebits := 0\<rparr>)"

text \<open>
  The 24 bits that the accumulator holds when \<open>write(nbits, val)\<close> fills it: the bits
  it held, then the leading bits of \<open>val\<close> that still fit.
\<close>

definition accumulator :: "DspMemChunk \<Rightarrow> nat \<Rightarrow> 32 word \<Rightarrow> 32 word" where
  "accumulator ch nbits val =
     (push_bit (24 - cachebits ch) (cache ch) OR drop_bit (nbits - (24 - cachebits ch)) val) AND 0xFFFFFF"

section \<open>Expected call sequences\<close>

text \<open>Calls as the log holds them when all are made while \<open>mActiveId\<close> is \<open>active\<close>.\<close>

definition logged_at :: "int \<Rightarrow> hwcall list \<Rightarrow> (hwcall \<times> int) list" where
  "logged_at active calls = map (\<lambda>c. (c, active)) calls"

text \<open>The calls \<open>off()\<close> makes when no effect is active.\<close>

definition idle_off_calls :: "Env \<Rightarrow> Vibrator \<Rightarrow> hwcall list" where
  "idle_off_calls env v =
     SetFFGain Base 100
     # (if setFFGain (mHwApiDef env) 100 \<and> mIsDual v then [SetFFGain Flip 100] else [])
     @ (if mF0Offset v \<noteq> 0
        then SetF0Offset Base 0 # (if mIsDual v \<and> mF0OffsetDual v \<noteq> 0 then [SetF0Offset Flip 0] else [])
        else [])"




section \<open>Reading the header\<close>

text \<open>The 32-bit value that four bytes hold in big-endian order.\<close>

definition be32 :: "8 word \<Rightarrow> 8 word \<Rightarrow> 8 word \<Rightarrow> 8 word \<Rightarrow> 32 word" where
  "be32 b0 b1 b2 b3 = push_bit 24 (ucast b0) OR push_bit 16 (ucast b1) OR push_bit 8 (ucast b2) OR ucast b3"

section \<open>Basic facts\<close>

lemma bnd_simps [simp]: "bnd (Inl e) f = Inl e" "bnd (Inr a) f = f a"
  by (simp_all add: bnd_def)

lemma float_100: "float_of_int 100 = Fin 100"
  by code_simp

lemma full_scale: "amplitudeToScale (Fin 100) (Fin 100) = Inr 100"
  by code_simp

lemma to_u8_100: "float_to_unsigned 8 (Fin 100) = Inr 100"
  by code_simp

lemma setGlobalAmplitude_False:
  "setGlobalAmplitude env False v =
     setEffectAmplitude env (Fin 100) (Fin 100) (v\<lparr>mLongEffectScale := Fin 1\<rparr>)"
  by (simp add: setGlobalAmplitude_def VOLTAGE_SCALE_MAX_def float_100 to_u8_100)

section \<open>Facts about the bit writer\<close>

lemma store_cache_fields [simp]:
  "current (store_cache n ch) = current ch + n"
  "length (head (store_cache n ch)) = length (head ch)"
  "bytes (store_cache n ch) = bytes ch"
  "cachebits (store_cache n ch) = cachebits ch"
  "max_ptr (store_cache n ch) = max_ptr ch"
  "waveformType (store_cache n ch) = waveformType ch"
  by (induction n arbitrary: ch; simp)+

lemma store_cache_other:
  "j < current ch \<or> current ch + n \<le> j \<Longrightarrow> head (store_cache n ch) ! j = head ch ! j"
  by (induction n arbitrary: ch) auto

lemma store_cache_first:
  "current ch < length (head ch) \<Longrightarrow>
   head (store_cache (Suc n) ch) ! current ch = ucast (drop_bit 24 (cache ch AND 0xFF000000))"
  by (simp add: store_cache_other)

lemma top_byte_masked: "ucast (drop_bit 24 ((c AND 0xFFFFFF) AND 0xFF000000 :: 32 word)) = (0 :: 8 word)"
  by (rule bit_word_eqI) (auto simp: bit_simps)

lemma chunk_write_partial:
  "cachebits ch + nbits < 24 \<Longrightarrow>
   chunk_write nbits val ch =
     Inr (0, ch\<lparr>cache := push_bit nbits (cache ch) OR val, cachebits := cachebits ch + nbits\<rparr>)"
proof -
  assume a: "cachebits ch + nbits < 24"
  then have nw: "min (24 - cachebits ch) nbits = nbits" by simp
  show ?thesis
    by (subst chunk_write.simps) (use a in \<open>simp add: Let_def nw\<close>)
qed

lemma chunk_write_fill:
  assumes "cachebits ch < 24" "24 \<le> cachebits ch + nbits" "nbits \<le> 32"
      "current ch \<noteq> max_ptr ch" "current ch + 4 \<le> length (head ch)"
  shows "chunk_write nbits val ch =
     (let ch3 = flush_word (ch\<lparr>cache := push_bit (24 - cachebits ch) (cache ch)
                                     OR drop_bit (nbits - (24 - cachebits ch)) val,
                           cachebits := 24\<rparr>)
      in if nbits - (24 - cachebits ch) \<noteq> 0 then chunk_write (nbits - (24 - cachebits ch)) val ch3
         else Inr (0, ch3))"
proof -
  have nw: "min (24 - cachebits ch) nbits = 24 - cachebits ch"
    using assms by simp
  have cb: "cachebits ch + (24 - cachebits ch) = 24" using assms by simp
  have g: "\<not> (24 < cachebits ch \<or> 32 \<le> nbits - (24 - cachebits ch))"
    using assms by simp
  show ?thesis
    apply (subst chunk_write.simps)
    apply (simp only: nw cb g if_False Let_def)
    using assms(4,5)
    apply (simp add: isEnd_def flush_word_def Let_def del: store_cache.simps)
    done
qed

lemma flush_word_fields [simp]:
  "current (flush_word ch) = current ch + 4"
  "length (head (flush_word ch)) = length (head ch)"
  "bytes (flush_word ch) = bytes ch + 4"
  "cachebits (flush_word ch) = 0"
  "max_ptr (flush_word ch) = max_ptr ch"
  "waveformType (flush_word ch) = waveformType ch"
  by (simp_all add: flush_word_def Let_def del: store_cache.simps)

lemma flush_word_other:
  "j < current ch \<or> current ch + 4 \<le> j \<Longrightarrow> head (flush_word ch) ! j = head ch ! j"
  using store_cache_other [of j "ch\<lparr>cache := cache ch AND 0xFFFFFF\<rparr>" 4]
  by (simp add: flush_word_def Let_def del: store_cache.simps)

lemma flush_word_first:
  "current ch < length (head ch) \<Longrightarrow> head (flush_word ch) ! current ch = 0"
proof -
  assume a: "current ch < length (head ch)"
  have four: "store_cache 4 = store_cache (Suc 3)" by simp
  show ?thesis
    using a store_cache_first [of "ch\<lparr>cache := cache ch AND 0xFFFFFF\<rparr>" 3]
    unfolding flush_word_def Let_def four
    by (simp add: top_byte_masked del: store_cache.simps)
qed

lemma flush_word_ok:
  assumes "4 dvd current ch" "bytes ch = current ch" "max_ptr ch = length (head ch)"
    "\<forall>i. 4 * i < length (head ch) \<longrightarrow> head ch ! (4 * i) = 0" "current ch + 4 \<le> length (head ch)"
  shows "chunk_ok (flush_word ch)"
proof -
  have "head (flush_word ch) ! (4 * i) = 0" if "4 * i < length (head ch)" for i
  proof (cases "4 * i = current ch")
    case True
    then show ?thesis using flush_word_first [of ch] assms(5) by simp
  next
    case False
    obtain k where k: "current ch = 4 * k" using assms(1) by (auto simp: dvd_def)
    have "4 * i < current ch \<or> current ch + 4 \<le> 4 * i" using False k by auto
    then show ?thesis using flush_word_other [of "4 * i" ch] assms(4) that by simp
  qed
  then show ?thesis using assms by (simp add: chunk_ok_def)
qed

lemma chunk_write_ok:
  assumes "chunk_ok ch" "nbits \<le> 32" "bits_written ch + nbits \<le> capacity_bits ch"
  shows "\<exists>ch'. chunk_write nbits val ch = Inr (0, ch') \<and> chunk_ok ch'
           \<and> bits_written ch' = bits_written ch + nbits
           \<and> max_ptr ch' = max_ptr ch \<and> waveformType ch' = waveformType ch"
  using assms
proof (induction nbits arbitrary: ch rule: less_induct)
  case (less nbits)
  show ?case
  proof (cases "cachebits ch + nbits < 24")
    case True
    then show ?thesis
      using less.prems by (simp add: chunk_write_partial chunk_ok_def bits_written_def)
  next
    case False
    define ch1 where "ch1 = ch\<lparr>cache := push_bit (24 - cachebits ch) (cache ch)
                                     OR drop_bit (nbits - (24 - cachebits ch)) val,
                           cachebits := 24\<rparr>"
    define ch3 where "ch3 = flush_word ch1"
    define n' where "n' = nbits - (24 - cachebits ch)"
    have cb: "cachebits ch < 24" and ok: "4 dvd current ch" "bytes ch = current ch"
      "max_ptr ch = length (head ch)" "\<forall>i. 4 * i < length (head ch) \<longrightarrow> head ch ! (4 * i) = 0"
      using less.prems(1) by (auto simp: chunk_ok_def)
    obtain k where k: "current ch = 4 * k" using ok(1) by (auto simp: dvd_def)
    have "24 * k + 24 \<le> 24 * (max_ptr ch div 4)"
      using less.prems(3) False k by (simp add: bits_written_def capacity_bits_def)
    then have "k + 1 \<le> max_ptr ch div 4" by simp
    then have room: "current ch + 4 \<le> max_ptr ch" using k by (simp add: less_eq_div_iff_mult_less_eq) 
    have w: "chunk_write nbits val ch = (if n' \<noteq> 0 then chunk_write n' val ch3 else Inr (0, ch3))"
      using chunk_write_fill [of ch nbits val] cb False less.prems(2) room ok(3)
      by (simp add: Let_def ch1_def ch3_def n'_def)
    have ok3: "chunk_ok ch3"
      unfolding ch3_def using ok room by (intro flush_word_ok) (simp_all add: ch1_def)
    have b3: "bits_written ch3 + n' = bits_written ch + nbits"
      using False cb by (simp add: bits_written_def ch3_def ch1_def n'_def)
    have m3: "max_ptr ch3 = max_ptr ch" "waveformType ch3 = waveformType ch"
      by (simp_all add: ch3_def ch1_def)
    show ?thesis
    proof (cases "n' = 0")
      case True
      then show ?thesis using w ok3 b3 m3 by simp
    next
      case False
      have lt: "n' < nbits" using cb \<open>\<not> cachebits ch + nbits < 24\<close> by (simp add: n'_def)
      have "\<exists>ch'. chunk_write n' val ch3 = Inr (0, ch') \<and> chunk_ok ch'
           \<and> bits_written ch' = bits_written ch3 + n'
           \<and> max_ptr ch' = max_ptr ch3 \<and> waveformType ch' = waveformType ch3"
        using less.IH [OF lt ok3] less.prems(2,3) lt b3 m3 by (simp add: capacity_bits_def)
      then show ?thesis using w False b3 m3 by auto
    qed
  qed
qed

section \<open>The blob of compose stays within its array\<close>

lemma not_chunk_fault_Inr [simp]: "\<not> chunk_fault (Inr a)"
  by (simp add: chunk_fault_def)

lemma not_chunk_fault_float [simp]: "\<not> chunk_fault (Inl FloatToIntOutOfRange)"
  by (simp add: chunk_fault_def)

lemma not_chunk_fault_bnd:
  "\<not> chunk_fault m \<Longrightarrow> (\<And>a. m = Inr a \<Longrightarrow> \<not> chunk_fault (f a)) \<Longrightarrow> \<not> chunk_fault (bnd m f)"
  by (cases m) (auto simp: chunk_fault_def)

lemma grown_by_refl: "chunk_ok ch \<Longrightarrow> grown_by 0 ch ch"
  by (simp add: grown_by_def)

lemma grown_by_trans:
  "grown_by n a b \<Longrightarrow> grown_by m b c \<Longrightarrow> grown_by (n + m) a c"
  by (auto simp: grown_by_def)

lemma grown_by_mono: "grown_by n a b \<Longrightarrow> n \<le> m \<Longrightarrow> grown_by m a b"
  by (auto simp: grown_by_def)

lemma grown_by_capacity: "grown_by n a b \<Longrightarrow> capacity_bits b = capacity_bits a"
  by (simp add: grown_by_def capacity_bits_def)

lemma wr_grows:
  assumes "chunk_ok ch" "nbits \<le> 32" "bits_written ch + nbits \<le> capacity_bits ch"
  shows "\<exists>ch'. wr nbits val ch = Inr ch' \<and> grown_by nbits ch ch'
           \<and> bits_written ch' = bits_written ch + nbits"
  using chunk_write_ok [OF assms, of val] by (auto simp: wr_def grown_by_def)

lemma constructComposeSegment_grows:
  assumes "chunk_ok ch" "bits_written ch + 48 \<le> capacity_bits ch"
  shows "\<exists>rc ch'. constructComposeSegment a b c d e ch = Inr (rc, ch') \<and> grown_by 48 ch ch'"
proof (cases "waveformType ch \<noteq> WAVEFORM_COMPOSE \<or> 100 < a \<or> of_nat WAVEFORM_MAX_PHYSICAL_INDEX < b")
  case True
  then show ?thesis
    using assms(1) by (auto simp: constructComposeSegment_def grown_by_def)
next
  case False
  obtain c1 where c1: "wr 8 a ch = Inr c1" "grown_by 8 ch c1" "bits_written c1 = bits_written ch + 8"
    using wr_grows [of ch 8 a] assms by auto
  have k1: "capacity_bits c1 = capacity_bits ch" using c1(2) by (rule grown_by_capacity)
  obtain c2 where c2: "wr 8 b c1 = Inr c2" "grown_by 8 c1 c2" "bits_written c2 = bits_written c1 + 8"
    using wr_grows [of c1 8 b] assms c1 k1 by (auto simp: grown_by_def)
  have k2: "capacity_bits c2 = capacity_bits ch" using c2(2) k1 by (simp add: grown_by_capacity)
  obtain c3 where c3: "wr 8 (ucast c) c2 = Inr c3" "grown_by 8 c2 c3" "bits_written c3 = bits_written c2 + 8"
    using wr_grows [of c2 8 "ucast c"] assms c1 c2 k2 by (auto simp: grown_by_def)
  have k3: "capacity_bits c3 = capacity_bits ch" using c3(2) k2 by (simp add: grown_by_capacity)
  obtain c4 where c4: "wr 8 (ucast d) c3 = Inr c4" "grown_by 8 c3 c4" "bits_written c4 = bits_written c3 + 8"
    using wr_grows [of c3 8 "ucast d"] assms c1 c2 c3 k3 by (auto simp: grown_by_def)
  have k4: "capacity_bits c4 = capacity_bits ch" using c4(2) k3 by (simp add: grown_by_capacity)
  obtain c5 where c5: "wr 16 (ucast e) c4 = Inr c5" "grown_by 16 c4 c5" "bits_written c5 = bits_written c4 + 16"
    using wr_grows [of c4 16 "ucast e"] assms c1 c2 c3 c4 k4 by (auto simp: grown_by_def)
  have "grown_by 48 ch c5"
    using c1 c2 c3 c4 c5 by (auto simp: grown_by_def)
  moreover have "constructComposeSegment a b c d e ch = Inr (0, c5)"
    using False c1(1) c2(1) c3(1) c4(1) c5(1) by (simp add: constructComposeSegment_def)
  ultimately show ?thesis by blast
qed


lemma float_to_unsigned_fault: "\<not> chunk_fault (float_to_unsigned w x)"
  by (cases x) (auto simp: float_to_unsigned_def chunk_fault_def)

lemma calc_fault: "\<not> chunk_fault (calc u i vol)"
  by (simp add: calc_def Let_def chunk_fault_def)

lemma intensityToVolLevel_fault: "\<not> chunk_fault (intensityToVolLevel env v i idx)"
  by (simp add: intensityToVolLevel_def calc_fault)

lemma compose_primitive_fault: "\<not> chunk_fault (compose_primitive env v e td)"
proof (cases "primitive e \<noteq> NOOP")
  case True
  show ?thesis
  proof (cases "getPrimitiveDetails v (primitive e)")
    case (Inl s)
    then show ?thesis using True by (simp add: compose_primitive_def)
  next
    case (Inr idx)
    have h: "\<not> chunk_fault (bnd (intensityToVolLevel env v s2 idx) (\<lambda>effectVolLevel. Inr (Inr (idx, effectVolLevel, t))))"
      for s2 and t :: "16 word"
      by (rule not_chunk_fault_bnd) (simp_all add: intensityToVolLevel_fault)
    show ?thesis using True Inr by (simp add: compose_primitive_def Let_def h)
  qed
next
  case False
  then show ?thesis by (simp add: compose_primitive_def)
qed

lemma compose_body_grows:
  assumes "chunk_ok ch" "bits_written ch + 48 \<le> capacity_bits ch"
  shows "\<not> chunk_fault (compose_body env v e n (td, ch))
     \<and> (\<forall>td' ch'. compose_body env v e n (td, ch) = Inr (Inr (td', ch')) \<longrightarrow> grown_by 48 ch ch')"
proof (cases "fless (scale e) (Fin 0) \<or> fgreater (scale e) (Fin 1)")
  case True
  then show ?thesis by (simp add: compose_body_def)
next
  case range: False
  show ?thesis
  proof (cases "compose_primitive env v e td")
    case (Inl f)
    then have "\<not> chunk_fault (Inl f :: fault + (status + (16 word \<times> DspMemChunk)))"
      using compose_primitive_fault [of env v e td] by (simp add: chunk_fault_def)
    then show ?thesis using Inl range by (simp add: compose_body_def)
  next
    case (Inr r)
    show ?thesis
    proof (cases r)
      case (Inl s)
      then show ?thesis using Inr range by (simp add: compose_body_def)
    next
      case prim: (Inr t)
      obtain effectIndex effectVolLevel td1 where t: "t = (effectIndex, effectVolLevel, td1)"
        by (cases t) auto
      show ?thesis
      proof (cases "compose_next_delay n td1")
        case (Inl s)
        then show ?thesis using Inr prim t range by (simp add: compose_body_def)
      next
        case nd: (Inr p)
        obtain d td2 where p: "p = (d, td2)" by (cases p) auto
        show ?thesis
        proof (cases "effectIndex = 0 \<and> d = 0")
          case True
          then show ?thesis using Inr prim t range nd p by (simp add: compose_body_def)
        next
          case False
          obtain rc ch' where seg: "constructComposeSegment effectVolLevel (of_nat effectIndex) 0 0 d ch = Inr (rc, ch')"
              "grown_by 48 ch ch'"
            using constructComposeSegment_grows [OF assms, of effectVolLevel "of_nat effectIndex" 0 0 d] by blast
          have "compose_body env v e n (td, ch) = Inr (Inr (td2, ch'))"
            using Inr prim t range nd p False seg(1) by (simp add: compose_body_def)
          then show ?thesis using seg(2) by simp
        qed
      qed
    qed
  qed
qed

lemma compose_loop_grows:
  assumes "chunk_ok ch" "bits_written ch + 48 * length es \<le> capacity_bits ch"
  shows "\<not> chunk_fault (compose_loop env v es (td, ch))
     \<and> (\<forall>td' ch'. compose_loop env v es (td, ch) = Inr (Inr (td', ch')) \<longrightarrow> grown_by (48 * length es) ch ch')"
  using assms
proof (induction es arbitrary: td ch)
  case Nil
  then show ?case by (simp add: grown_by_refl)
next
  case (Cons e es)
  let ?n = "case es of [] \<Rightarrow> None | e_next # x \<Rightarrow> Some e_next"
  have b: "\<not> chunk_fault (compose_body env v e ?n (td, ch))"
    "\<And>td' ch'. compose_body env v e ?n (td, ch) = Inr (Inr (td', ch')) \<Longrightarrow> grown_by 48 ch ch'"
    using compose_body_grows [of ch env v e ?n td] Cons.prems by auto
  show ?case
  proof (cases "compose_body env v e ?n (td, ch)")
    case (Inl f)
    then show ?thesis using b(1) by (auto simp: chunk_fault_def)
  next
    case (Inr r)
    show ?thesis
    proof (cases r)
      case (Inl s)
      then show ?thesis using Inr by simp
    next
      case (Inr st)
      obtain td1 ch1 where st: "st = (td1, ch1)" by (cases st) auto
      have g: "grown_by 48 ch ch1" using b(2) \<open>compose_body env v e ?n (td, ch) = Inr r\<close> Inr st by simp
      then have "chunk_ok ch1" "bits_written ch1 + 48 * length es \<le> capacity_bits ch1"
        using Cons.prems by (auto simp: grown_by_def capacity_bits_def)
      then have ih: "\<not> chunk_fault (compose_loop env v es (td1, ch1))"
        "\<And>td' ch'. compose_loop env v es (td1, ch1) = Inr (Inr (td', ch')) \<Longrightarrow> grown_by (48 * length es) ch1 ch'"
        using Cons.IH [of ch1 td1] by auto
      have "compose_loop env v (e # es) (td, ch) = compose_loop env v es (td1, ch1)"
        using \<open>compose_body env v e ?n (td, ch) = Inr r\<close> Inr st by simp
      then show ?thesis
        using ih g grown_by_trans [of 48 ch ch1 "48 * length es"] by (auto simp: add.commute)
    qed
  qed
qed


lemma fresh_compose: "new_DspMemChunk WAVEFORM_COMPOSE FF_CUSTOM_DATA_LEN_MAX_COMP = Inr fresh_compose_chunk"
  by code_simp

lemma fresh_pwle: "new_DspMemChunk WAVEFORM_PWLE FF_CUSTOM_DATA_LEN_MAX_PWLE = Inr fresh_pwle_chunk"
  by code_simp

lemma fresh_compose_ok:
  "chunk_ok fresh_compose_chunk" "bits_written fresh_compose_chunk = 24"
  "capacity_bits fresh_compose_chunk = 12264" "max_ptr fresh_compose_chunk = 2044"
  "waveformType fresh_compose_chunk = WAVEFORM_COMPOSE" "bytes fresh_compose_chunk = 4"
  by (simp_all add: chunk_ok_def bits_written_def capacity_bits_def fresh_compose_chunk_def
      WAVEFORM_COMPOSE_def)

lemma fresh_pwle_ok:
  "chunk_ok fresh_pwle_chunk" "bits_written fresh_pwle_chunk = 52"
  "capacity_bits fresh_pwle_chunk = 13800" "max_ptr fresh_pwle_chunk = 2302"
  "waveformType fresh_pwle_chunk = WAVEFORM_PWLE"
  by (simp_all add: chunk_ok_def bits_written_def capacity_bits_def fresh_pwle_chunk_def
      WAVEFORM_PWLE_def)

lemma cursor_bound:
  assumes "chunk_ok ch" "bits_written ch \<le> capacity_bits ch"
  shows "current ch \<le> max_ptr ch"
proof -
  have "6 * current ch \<le> 24 * (max_ptr ch div 4)"
    using assms(2) by (simp add: bits_written_def capacity_bits_def)
  then have "current ch \<le> 4 * (max_ptr ch div 4)" by simp
  then show ?thesis by (simp add: less_eq_div_iff_mult_less_eq mult.commute)
qed

lemma flush_grows:
  assumes "chunk_ok ch" "bits_written ch \<le> capacity_bits ch"
  shows "\<exists>ch'. flush ch = Inr (0, ch') \<and> grown_by 23 ch ch' \<and> cachebits ch' = 0
           \<and> bits_written ch' \<le> capacity_bits ch"
proof (cases "cachebits ch = 0")
  case True
  then show ?thesis using assms by (auto simp: flush_def grown_by_def)
next
  case False
  obtain k where k: "current ch = 4 * k" using assms(1) by (auto simp: chunk_ok_def dvd_def)
  have cb: "cachebits ch < 24" using assms(1) by (simp add: chunk_ok_def)
  have "24 * k + cachebits ch \<le> 24 * (max_ptr ch div 4)"
    using assms(2) k by (simp add: bits_written_def capacity_bits_def)
  then have "k < max_ptr ch div 4" using False by (cases "k < max_ptr ch div 4") auto
  then have room: "bits_written ch + (24 - cachebits ch) \<le> capacity_bits ch"
    using k cb by (simp add: bits_written_def capacity_bits_def)
  have le: "24 - cachebits ch \<le> 32" by simp
  obtain ch' where ch': "chunk_write (24 - cachebits ch) 0 ch = Inr (0, ch')" "chunk_ok ch'"
      "bits_written ch' = bits_written ch + (24 - cachebits ch)"
      "max_ptr ch' = max_ptr ch" "waveformType ch' = waveformType ch"
    using chunk_write_ok [OF assms(1) le room, of 0] by auto
  obtain k' where k': "current ch' = 4 * k'" using ch'(2) by (auto simp: chunk_ok_def dvd_def)
  have cb': "cachebits ch' < 24" using ch'(2) by (simp add: chunk_ok_def)
  have "24 * k' + cachebits ch' = 24 * (k + 1)"
    using ch'(3) k k' cb by (simp add: bits_written_def)
  then have "cachebits ch' = 0" using cb' by presburger
  then show ?thesis
    using False ch' cb room by (simp add: flush_def grown_by_def)
qed

lemma chunk_ok_update:
  assumes "chunk_ok ch" "\<not> 4 dvd j"
  shows "chunk_ok (ch\<lparr>head := (head ch)[j := x]\<rparr>)"
proof -
  have ne: "j \<noteq> 4 * i" for i using assms(2) by auto
  show ?thesis using assms(1) by (simp add: chunk_ok_def ne)
qed

lemma byte_and_255 [simp]: "(x :: 8 word) AND 0xFF = x"
proof -
  have e: "(0xFF :: 8 word) = mask 8" by (simp add: mask_eq_exp_minus_1)
  show ?thesis unfolding e by (simp add: take_bit_word_eq_self flip: take_bit_eq_mask)
qed

lemma updateNSection_compose:
  assumes "waveformType ch = WAVEFORM_COMPOSE" "n \<le> 255" "2 < length (head ch)"
  shows "updateNSection n ch = Inr (0, ch\<lparr>head := (head ch)[2 := word_of_int n]\<rparr>)"
  using assms by (simp add: updateNSection_def COMPOSE_SIZE_MAX_def not_less)

lemma section_byte:
  assumes "n \<le> 255"
  shows "unat (word_of_int (uint (of_nat n :: 16 word)) :: 8 word) = n"
proof -
  have "unat (of_nat n :: 16 word) = n"
    using assms by (simp add: unat_of_nat)
  then have "uint (of_nat n :: 16 word) = int n"
    by (simp add: uint_nat)
  then show ?thesis using assms by (simp add: unat_of_nat)
qed


lemma compose_build_facts:
  "\<not> chunk_fault (compose_build env v composite)
   \<and> (\<forall>ch. compose_build env v composite = Inr (Inr ch) \<longrightarrow>
         chunk_ok ch \<and> current ch \<le> max_ptr ch
         \<and> max_ptr ch = 2044 \<and> waveformType ch = WAVEFORM_COMPOSE
         \<and> composite \<noteq> [] \<and> length composite \<le> 254
         \<and> unat (head ch ! 2) = length composite
              + (if (word_of_int (delayMs (hd composite)) :: 16 word) = 0 then 0 else 1))"
proof (cases "COMPOSE_SIZE_MAX < length composite \<or> composite = []")
  case True
  then show ?thesis by (simp add: compose_build_def)
next
  case size_ok: False
  define d where "d = (word_of_int (delayMs (hd composite)) :: 16 word)"
  define n where "n = (if d = 0 then length composite else length composite + 1)"
  have n255: "n \<le> 255" using size_ok by (simp add: n_def COMPOSE_SIZE_MAX_def)
  have sz: "(if 0 < uint d then of_nat (length composite + 1) else of_nat (length composite)) = (of_nat n :: 16 word)"
    by (simp add: n_def word_greater_zero_iff [symmetric] word_less_def)
  show ?thesis
  proof (cases "COMPOSE_DELAY_MAX_MS < uint d")
    case True
    then show ?thesis using size_ok by (simp add: compose_build_def d_def Let_def)
  next
    case delay_ok: False
    obtain rc1 ch1 where s1: "(if d \<noteq> 0 then constructComposeSegment 0 0 0 0 d fresh_compose_chunk
               else Inr (0, fresh_compose_chunk)) = Inr (rc1, ch1)" "grown_by 48 fresh_compose_chunk ch1"
    proof (cases "d = 0")
      case True
      then show ?thesis using that [of 0 fresh_compose_chunk] fresh_compose_ok(1)
        by (simp add: grown_by_def)
    next
      case False
      then show ?thesis
        using constructComposeSegment_grows [of fresh_compose_chunk 0 0 0 0 d] that
        by (auto simp: fresh_compose_ok)
    qed
    have ok1: "chunk_ok ch1" "bits_written ch1 + 48 * length composite \<le> capacity_bits ch1"
      using s1(2) size_ok
      by (auto simp: grown_by_def capacity_bits_def fresh_compose_ok(2,4) COMPOSE_SIZE_MAX_def)
    have loop: "\<not> chunk_fault (compose_loop env v composite (0 + d, ch1))"
      "\<And>td' ch'. compose_loop env v composite (0 + d, ch1) = Inr (Inr (td', ch'))
          \<Longrightarrow> grown_by (48 * length composite) ch1 ch'"
      using compose_loop_grows [OF ok1, of env v "0 + d"] by auto
    have unfold: "compose_build env v composite =
        bnd (compose_loop env v composite (0 + d, ch1)) (\<lambda>r.
           case r of
             Inl s \<Rightarrow> Inr (Inl s)
           | Inr (td, ch2) \<Rightarrow>
               bnd (flush ch2) (\<lambda>(rc1, ch3).
               bnd (updateNSection (uint (of_nat n :: 16 word)) ch3) (\<lambda>(rc2, ch4).
                 if rc2 < 0 then Inr (Inl EX_ILLEGAL_ARGUMENT)
                 else if unat (of_nat (bytes fresh_compose_chunk) :: 8 word) = bytes ch4
                 then Inr (Inl EX_ILLEGAL_ARGUMENT)
                 else Inr (Inr ch4))))"
      using size_ok delay_ok s1(1)
      by (simp add: compose_build_def Let_def d_def [symmetric] fresh_compose sz)
    show ?thesis
    proof (cases "compose_loop env v composite (0 + d, ch1)")
      case (Inl f)
      then show ?thesis using unfold loop(1) by (simp add: chunk_fault_def)
    next
      case (Inr r)
      show ?thesis
      proof (cases r)
        case (Inl s)
        then show ?thesis using unfold Inr by simp
      next
        case finished: (Inr st)
        obtain td2 ch2 where st: "st = (td2, ch2)" by (cases st) auto
        have g2: "grown_by (48 * length composite) ch1 ch2"
          using loop(2) Inr finished st by simp
        have ok2: "chunk_ok ch2" "bits_written ch2 \<le> capacity_bits ch2" "max_ptr ch2 = 2044"
          "waveformType ch2 = WAVEFORM_COMPOSE"
          using g2 s1(2) size_ok
          by (auto simp: grown_by_def capacity_bits_def fresh_compose_ok COMPOSE_SIZE_MAX_def)
        obtain ch3 where f3: "flush ch2 = Inr (0, ch3)" "grown_by 23 ch2 ch3"
            "bits_written ch3 \<le> capacity_bits ch2"
          using flush_grows [OF ok2(1,2)] by blast
        have ok3: "chunk_ok ch3" "max_ptr ch3 = 2044" "waveformType ch3 = WAVEFORM_COMPOSE"
          using f3(2) ok2 by (auto simp: grown_by_def)
        have len3: "2 < length (head ch3)" using ok3 by (simp add: chunk_ok_def)
        have un: "uint (of_nat n :: 16 word) \<le> 255"
          using n255 by (simp add: uint_nat unat_of_nat)
        have u4: "updateNSection (uint (of_nat n :: 16 word)) ch3
            = Inr (0, ch3\<lparr>head := (head ch3)[2 := word_of_int (uint (of_nat n :: 16 word))]\<rparr>)"
          using updateNSection_compose [OF ok3(3) un len3] .
        define ch4 where "ch4 = ch3\<lparr>head := (head ch3)[2 := word_of_int (uint (of_nat n :: 16 word))]\<rparr>"
        have res: "compose_build env v composite =
            (if unat (of_nat (bytes fresh_compose_chunk) :: 8 word) = bytes ch4
             then Inr (Inl EX_ILLEGAL_ARGUMENT) else Inr (Inr ch4))"
          using unfold Inr finished st f3(1) u4 by (simp add: ch4_def)
        have ok4: "chunk_ok ch4" unfolding ch4_def by (rule chunk_ok_update [OF ok3(1)]) simp
        have b2: "unat (head ch4 ! 2) = n"
          using len3 section_byte [OF n255] by (simp add: ch4_def)
        have m4: "max_ptr ch4 = 2044" "waveformType ch4 = WAVEFORM_COMPOSE"
          using ok3 by (simp_all add: ch4_def)
        have "bits_written ch3 \<le> capacity_bits ch3"
          using f3(3) ok2(3) ok3(2) by (simp add: capacity_bits_def)
        then have "current ch3 \<le> max_ptr ch3" using cursor_bound [OF ok3(1)] by simp
        then have c4: "current ch4 \<le> max_ptr ch4" by (simp add: ch4_def)
        show ?thesis
          unfolding res using ok4 m4 b2 size_ok c4
          by (simp add: n_def d_def COMPOSE_SIZE_MAX_def)
      qed
    qed
  qed
qed

section \<open>compose: the size check\<close>

text \<open>
  C6. \<open>compose\<close> answers \<open>EX_ILLEGAL_ARGUMENT\<close> for an empty sequence and for a
  sequence of more than 254 entries, whatever the entries are, and returns the Vibrator as
  it was: no member is changed and no call is added to the log of calls on the hardware.
  In particular this holds for every sequence of exactly 255 entries.
\<close>

theorem compose_rejects_empty_or_oversized:
  "(composite = [] \<or> COMPOSE_SIZE_MAX < length composite
      \<longrightarrow> compose env composite callback v = Inr (EX_ILLEGAL_ARGUMENT, v))
   \<and> (length composite = 255 \<longrightarrow> compose env composite callback v = Inr (EX_ILLEGAL_ARGUMENT, v))"
  by (auto simp: compose_def compose_build_def COMPOSE_SIZE_MAX_def)

theorem compose_rejects_empty_or_oversized_witness:
  "compose env_ok [] None vib0 = Inr (EX_ILLEGAL_ARGUMENT, vib0)
   \<and> length (replicate 255 (click_step 65536)) = 255
   \<and> compose env_ok (replicate 255 (click_step 65536)) None vib0 = Inr (EX_ILLEGAL_ARGUMENT, vib0)"
  using compose_rejects_empty_or_oversized [of "[]" env_ok None vib0]
    compose_rejects_empty_or_oversized [of "replicate 255 (click_step 65536)" env_ok None vib0]
  by simp

section \<open>off() when nothing is active\<close>

text \<open>
  C9, as the code has it. When the active id is \<open>-1\<close>, \<open>off()\<close> returns success, leaves
  the active id at \<open>-1\<close> and sends neither a stop command nor a GPIO write; but it is not a
  no-op: it resets \<open>mLongEffectScale\<close> to 1.0, writes the full-scale gain 100 to the base
  actuator and, in dual mode when that write succeeded, to the flip actuator, and clears a
  frequency offset that is configured (\<open>idle_off_calls\<close>). A second call returns success
  again, leaves every member as the first call left it and repeats the same calls.
\<close>

theorem off_when_idle:
  assumes "mActiveId v = - 1"
  shows "off env v = Inr (STATUS_OK, v\<lparr>mLongEffectScale := Fin 1,
                                       hwlog := hwlog v @ logged_at (- 1) (idle_off_calls env v)\<rparr>)
     \<and> off env (v\<lparr>mLongEffectScale := Fin 1, hwlog := hwlog v @ logged_at (- 1) (idle_off_calls env v)\<rparr>)
         = Inr (STATUS_OK, v\<lparr>mLongEffectScale := Fin 1,
                             hwlog := hwlog v @ logged_at (- 1) (idle_off_calls env v)
                                        @ logged_at (- 1) (idle_off_calls env v)\<rparr>)
     \<and> (\<forall>a i b. SetFFPlay a i b \<notin> set (idle_off_calls env v))
     \<and> (\<forall>b. SetGPIOOutput b \<notin> set (idle_off_calls env v))"
proof -
  have step: "off env w = Inr (STATUS_OK, w\<lparr>mLongEffectScale := Fin 1,
                                            hwlog := hwlog w @ logged_at (- 1) (idle_off_calls env w)\<rparr>)"
    if "mActiveId w = - 1" for w
    using that
    by (cases w) (simp add: off_def off_stop_def off_f0_def setGlobalAmplitude_False setEffectAmplitude_def
        full_scale logcall_def idle_off_calls_def logged_at_def Let_def)
  have same: "idle_off_calls env (v\<lparr>mLongEffectScale := Fin 1, hwlog := l\<rparr>) = idle_off_calls env v" for l
    by (simp add: idle_off_calls_def)
  show ?thesis
    using step [OF assms]
      step [of "v\<lparr>mLongEffectScale := Fin 1, hwlog := hwlog v @ logged_at (- 1) (idle_off_calls env v)\<rparr>"] assms
    by (simp add: same) (simp add: idle_off_calls_def)
qed

theorem off_when_idle_witness:
  "mActiveId vib_half = - 1
   \<and> off env_ok vib_half = Inr (STATUS_OK, vib_half\<lparr>mLongEffectScale := Fin 1,
                                                    hwlog := [(SetFFGain Base 100, - 1)]\<rparr>)"
  using off_when_idle [of vib_half env_ok]
  by (simp add: vib_half_def vib0_def idle_off_calls_def logged_at_def env_ok_def hw_ok_def)

text \<open>
  The claim that the call is a no-op fails on an idle Vibrator whose amplitude scale is
  one half: the call changes the scale and writes the gain.
\<close>

theorem off_when_idle_not_noop:
  "mActiveId vib_half = - 1
   \<and> mLongEffectScale vib_half = Fin (1 / 2)
   \<and> off env_ok vib_half \<noteq> Inr (STATUS_OK, vib_half)
   \<and> off env_ok (vib_half\<lparr>hwlog := []\<rparr>)
       = Inr (STATUS_OK, vib_half\<lparr>mLongEffectScale := Fin 1, hwlog := [(SetFFGain Base 100, - 1)]\<rparr>)"
  by (simp add: off_def off_stop_def off_f0_def setGlobalAmplitude_False setEffectAmplitude_def
        full_scale logcall_def Let_def vib_half_def vib0_def env_ok_def hw_ok_def)

section \<open>amplitudeToScale\<close>

lemma round_away_nonneg: "- (1 / 2) < r \<Longrightarrow> 0 \<le> round_away r"
  unfolding round_away_def by (auto simp: le_floor_iff)

lemma round_away_neg: "r \<le> - (1 / 2) \<Longrightarrow> round_away r < 0"
  unfolding round_away_def by (auto simp: floor_less_iff less_floor_iff le_floor_iff)

lemma round_away_le_100: "r \<le> 100 \<Longrightarrow> round_away r \<le> 100"
proof (cases "0 \<le> r")
  case True
  assume "r \<le> 100"
  then show ?thesis using True by (simp add: round_away_def floor_le_iff)
next
  case False
  then have a: "(0::int) \<le> \<lfloor>- r + 1 / 2\<rfloor>" by (simp add: le_floor_iff)
  have "round_away r = - \<lfloor>- r + 1 / 2\<rfloor>" using False by (simp only: round_away_def if_False)
  with a show ?thesis by linarith
qed

lemma trunc0_of_int [simp]: "trunc0 (of_int k) = k"
  by (simp add: trunc0_def)

lemma u16_le_100: "0 \<le> k \<Longrightarrow> k \<le> 100 \<Longrightarrow> (word_of_int k :: 16 word) \<le> 100"
  by (simp add: word_le_def uint_word_of_int take_bit_int_eq_self)

text \<open>
  C5, as the code has it. When \<open>maximum\<close> is 0 the result is 100. Otherwise the ratio
  \<open>amplitude / maximum * 100\<close> is computed in single precision; an infinite ratio or one
  above 100 gives 100, and a ratio between \<open>-1/2\<close> and 100 gives the ratio rounded to the
  nearest integer (halves away from zero). A result is never above 100. For a NaN ratio
  and for a ratio that rounds to a negative integer the conversion of the rounded value to
  \<open>uint16_t\<close> has no defined result.
\<close>

theorem amplitudeToScale_spec:
  "amplitudeToScale amplitude maximum =
     (if feq maximum (Fin 0) then Inr 100
      else case fmul (fdiv amplitude maximum) (Fin 100) of
             NaN \<Rightarrow> Inl FloatToIntOutOfRange
           | MInf \<Rightarrow> Inl FloatToIntOutOfRange
           | PInf \<Rightarrow> Inr 100
           | Fin r \<Rightarrow> if 100 < r then Inr 100
                     else if r \<le> - (1 / 2) then Inl FloatToIntOutOfRange
                     else Inr (word_of_int (round_away r)))
   \<and> (\<forall>s. amplitudeToScale amplitude maximum = Inr s \<longrightarrow> s \<le> 100)"
proof -
  have ra100: "round_away 100 = 100"
    by code_simp
  have c100: "float_to_unsigned 16 (Fin 100) = Inr 100"
    by (simp add: float_to_unsigned_def trunc0_def)
  have nonfin: "float_to_unsigned 16 NaN = Inl FloatToIntOutOfRange"
    "float_to_unsigned 16 MInf = Inl FloatToIntOutOfRange"
    by (simp_all add: float_to_unsigned_def)
  have fin: "float_to_unsigned 16 (Fin (of_int (round_away r))) =
      (if r \<le> - (1 / 2) then Inl FloatToIntOutOfRange else Inr (round_away r))" if "r \<le> 100" for r
  proof (cases "r \<le> - (1 / 2)")
    case True
    then show ?thesis using round_away_neg [of r] by (simp add: float_to_unsigned_def)
  next
    case False
    then have "0 \<le> round_away r" "round_away r \<le> 100"
      using round_away_nonneg [of r] round_away_le_100 [of r] that by auto
    then show ?thesis using False by (simp add: float_to_unsigned_def)
  qed
  have eq: "amplitudeToScale amplitude maximum =
     (if feq maximum (Fin 0) then Inr 100
      else case fmul (fdiv amplitude maximum) (Fin 100) of
             NaN \<Rightarrow> Inl FloatToIntOutOfRange
           | MInf \<Rightarrow> Inl FloatToIntOutOfRange
           | PInf \<Rightarrow> Inr 100
           | Fin r \<Rightarrow> if 100 < r then Inr 100
                     else if r \<le> - (1 / 2) then Inl FloatToIntOutOfRange
                     else Inr (word_of_int (round_away r)))"
  proof (cases "feq maximum (Fin 0)")
    case True
    then show ?thesis by (simp add: amplitudeToScale_def c100 ra100)
  next
    case False
    show ?thesis
    proof (cases "fmul (fdiv amplitude maximum) (Fin 100)")
      case (Fin r)
      then show ?thesis
        using False fin [of r]
        by (simp add: amplitudeToScale_def Let_def fgreater_def c100 ra100)
    qed (use False in \<open>simp_all add: amplitudeToScale_def Let_def fgreater_def c100 ra100 nonfin\<close>)
  qed
  have le: "s \<le> 100" if "amplitudeToScale amplitude maximum = Inr s" for s
  proof -
    have "\<exists>k. 0 \<le> k \<and> k \<le> 100 \<and> s = word_of_int k"
      using that unfolding eq
      by (auto split: if_splits fval.splits
          intro: exI [of _ 100] dest: round_away_nonneg round_away_le_100)
         (metis not_le round_away_le_100 round_away_nonneg)
    then show ?thesis using u16_le_100 by auto
  qed
  show ?thesis using eq le by blast
qed

lemma scale_3_7: "amplitudeToScale (Fin 3) (Fin 7) = Inr 43"
  by code_simp

theorem amplitudeToScale_spec_witness:
  "amplitudeToScale (Fin 3) (Fin 7) = Inr 43 \<and> (43 :: 16 word) \<le> 100
   \<and> amplitudeToScale (Fin 3) (Fin 0) = Inr 100"
  using amplitudeToScale_spec [of "Fin 3" "Fin 7"] amplitudeToScale_spec [of "Fin 3" "Fin 0"]
  by (simp add: scale_3_7 feq_def)

text \<open>
  The claim fails for a negative ratio: \<open>amplitudeToScale(-1, 1)\<close> rounds to \<open>-100\<close>,
  which \<open>uint16_t\<close> cannot hold.
\<close>

theorem amplitudeToScale_negative_ratio:
  "amplitudeToScale (Fin (- 1)) (Fin 1) = Inl FloatToIntOutOfRange"
  by code_simp

section \<open>The completion task\<close>

lemma wfc_poll_fields [simp]:
  "mIsDual (wfc_poll env v) = mIsDual v" "mGPIOStatus (wfc_poll env v) = mGPIOStatus v"
  "mActiveId (wfc_poll env v) = mActiveId v"
  by (simp_all add: wfc_poll_def logcall_def Let_def)

lemma wfc_erase_active_fields [simp]:
  "mIsDual (wfc_erase_active env v) = mIsDual v" "mGPIOStatus (wfc_erase_active env v) = mGPIOStatus v"
  "mActiveId (wfc_erase_active env v) = mActiveId v"
  by (simp_all add: wfc_erase_active_def logcall_def Let_def)






section \<open>on: a failed upload to the second actuator\<close>

lemma on_arm_trigger_fields [simp]:
  "mIsDual (on_arm_trigger i v) = mIsDual v" "mGPIOStatus (on_arm_trigger i v) = mGPIOStatus v"
  "mActiveId (on_arm_trigger i v) = mActiveId v" "mAsyncHandle (on_arm_trigger i v) = mAsyncHandle v"
  "hwlog (on_arm_trigger i v) = hwlog v"
  by (simp_all add: on_arm_trigger_def)

lemma on_arm_trigger_logged:
  "mFfEffects (on_arm_trigger i (v\<lparr>hwlog := l\<rparr>)) = mFfEffects (on_arm_trigger i v)"
  "mFfEffectsDual (on_arm_trigger i (v\<lparr>hwlog := l\<rparr>)) = mFfEffectsDual (on_arm_trigger i v)"
  by (simp_all add: on_arm_trigger_def)

lemma on_upload_second_fails:
  assumes "mIsDual v"
    and "waveformType ch = WAVEFORM_COMPOSE \<or> waveformType ch = WAVEFORM_PWLE"
    and "bytes ch \<le> unat (getOwtFreeSpace (mHwApiDef env))"
    and "bytes ch \<le> unat (getOwtFreeSpace (mHwApiDual env))"
    and "uploadOwtEffect (mHwApiDef env) (take (bytes ch) (head ch))
           (mFfEffects (on_arm_trigger (waveformType ch) v) (waveformType ch)) (waveformType ch)
         = (True, eff1, idx1, err1)"
  shows "WAVEFORM_MAX_INDEX \<le> idx1 \<Longrightarrow> on_upload env ch v = Inl VectorIndexOutOfRange"
    and "idx1 < WAVEFORM_MAX_INDEX \<Longrightarrow>
         uploadOwtEffect (mHwApiDual env) (take (bytes ch) (head ch))
           (mFfEffectsDual (on_arm_trigger (waveformType ch) v) idx1) idx1
         = (False, eff2, idx2, err2) \<Longrightarrow>
         \<exists>v'. on_upload env ch v = Inr (Inl err2, v') \<and> mActiveId v' = mActiveId v
            \<and> mAsyncHandle v' = mAsyncHandle v
            \<and> hwlog v' = hwlog v @ logged_at (mActiveId v)
                 [GetOwtFreeSpace Base, GetOwtFreeSpace Flip,
                  UploadOwtEffect Base (take (bytes ch) (head ch)) (waveformType ch),
                  UploadOwtEffect Flip (take (bytes ch) (head ch)) idx1]"
proof -
  have ty: "\<not> (waveformType ch \<noteq> WAVEFORM_PWLE \<and> waveformType ch \<noteq> WAVEFORM_COMPOSE)"
    using assms(2) by auto
  have sp: "\<not> unat (getOwtFreeSpace (mHwApiDef env)) < bytes ch"
    "\<not> unat (getOwtFreeSpace (mHwApiDual env)) < bytes ch"
    using assms(3,4) by simp_all
  show "on_upload env ch v = Inl VectorIndexOutOfRange" if "WAVEFORM_MAX_INDEX \<le> idx1"
    unfolding on_upload_def Let_def
    using ty sp assms(1) that
    by (simp add: logcall_def on_arm_trigger_logged assms(5))
  show "\<exists>v'. on_upload env ch v = Inr (Inl err2, v') \<and> mActiveId v' = mActiveId v
            \<and> mAsyncHandle v' = mAsyncHandle v
            \<and> hwlog v' = hwlog v @ logged_at (mActiveId v)
                 [GetOwtFreeSpace Base, GetOwtFreeSpace Flip,
                  UploadOwtEffect Base (take (bytes ch) (head ch)) (waveformType ch),
                  UploadOwtEffect Flip (take (bytes ch) (head ch)) idx1]"
    if "idx1 < WAVEFORM_MAX_INDEX"
      and r2: "uploadOwtEffect (mHwApiDual env) (take (bytes ch) (head ch))
           (mFfEffectsDual (on_arm_trigger (waveformType ch) v) idx1) idx1
         = (False, eff2, idx2, err2)"
  proof -
    have n: "\<not> WAVEFORM_MAX_INDEX \<le> idx1" using that(1) by simp
    show ?thesis
      unfolding on_upload_def Let_def
      using ty sp assms(1) n
      by (simp add: logcall_def on_arm_trigger_logged assms(5) r2 logged_at_def)
  qed
qed

text \<open>
  C7, as the code has it. In dual-actuator mode, when the upload to the primary actuator
  succeeds, storing an index within the tables, and the upload to the secondary fails,
  \<open>on\<close> returns the exception code that the secondary upload reported
  (\<open>EX_ILLEGAL_STATE\<close> when that is what it reported), the active id and the completion
  task are left as they were, and the only calls made are the two free-space queries and
  the two uploads: no playback trigger is issued. The two uploads are the calls that
  \<open>on\<close> makes, with the arguments it passes.
\<close>

theorem on_secondary_upload_failure:
  assumes "effectIndex < FF_MAX_EFFECTS" and "asyncReady env" and "mIsDual v"
    and "waveformType ch = WAVEFORM_COMPOSE \<or> waveformType ch = WAVEFORM_PWLE"
    and "bytes ch \<le> unat (getOwtFreeSpace (mHwApiDef env))"
    and "bytes ch \<le> unat (getOwtFreeSpace (mHwApiDual env))"
    and "uploadOwtEffect (mHwApiDef env) (take (bytes ch) (head ch))
           (mFfEffects (on_arm_trigger (waveformType ch) v) (waveformType ch)) (waveformType ch)
         = (True, eff1, idx1, err1)"
    and "idx1 < WAVEFORM_MAX_INDEX"
    and "uploadOwtEffect (mHwApiDual env) (take (bytes ch) (head ch))
           (mFfEffectsDual (on_arm_trigger (waveformType ch) v) idx1) idx1
         = (False, eff2, idx2, err2)"
  shows "\<exists>v'. Vibrator_on env timeoutMs effectIndex (Some ch) callback v = Inr (err2, v')
     \<and> mActiveId v' = mActiveId v
     \<and> mAsyncHandle v' = mAsyncHandle v
     \<and> hwlog v' = hwlog v @ logged_at (mActiveId v)
          [GetOwtFreeSpace Base, GetOwtFreeSpace Flip,
           UploadOwtEffect Base (take (bytes ch) (head ch)) (waveformType ch),
           UploadOwtEffect Flip (take (bytes ch) (head ch)) idx1]"
proof -
  obtain v' where v': "on_upload env ch v = Inr (Inl err2, v')" "mActiveId v' = mActiveId v"
      "mAsyncHandle v' = mAsyncHandle v"
      "hwlog v' = hwlog v @ logged_at (mActiveId v)
                 [GetOwtFreeSpace Base, GetOwtFreeSpace Flip,
                  UploadOwtEffect Base (take (bytes ch) (head ch)) (waveformType ch),
                  UploadOwtEffect Flip (take (bytes ch) (head ch)) idx1]"
    using on_upload_second_fails(2) [OF assms(3-7) assms(8,9)] by blast
  have "Vibrator_on env timeoutMs effectIndex (Some ch) callback v = Inr (err2, v')"
    using assms(1,2) v'(1) by (simp add: Vibrator_on_def)
  then show ?thesis using v'(2-4) by blast
qed

theorem on_secondary_upload_failure_witness:
  "16 < FF_MAX_EFFECTS \<and> asyncReady env_flip_fails \<and> mIsDual vib_dual
   \<and> waveformType click_chunk = WAVEFORM_COMPOSE
   \<and> bytes click_chunk \<le> unat (getOwtFreeSpace (mHwApiDef env_flip_fails))
   \<and> bytes click_chunk \<le> unat (getOwtFreeSpace (mHwApiDual env_flip_fails))
   \<and> uploadOwtEffect (mHwApiDef env_flip_fails) (take (bytes click_chunk) (head click_chunk))
        (mFfEffects (on_arm_trigger (waveformType click_chunk) vib_dual) (waveformType click_chunk))
        (waveformType click_chunk)
      = (True, eff0\<lparr>ff_id := 14\<rparr>, 14, STATUS_OK)
   \<and> 14 < WAVEFORM_MAX_INDEX
   \<and> uploadOwtEffect (mHwApiDual env_flip_fails) (take (bytes click_chunk) (head click_chunk))
        (mFfEffectsDual (on_arm_trigger (waveformType click_chunk) vib_dual) 14) 14
      = (False, eff0, 14, EX_ILLEGAL_STATE)
   \<and> (\<exists>v'. Vibrator_on env_flip_fails 65535 16 (Some click_chunk) None vib_dual = Inr (EX_ILLEGAL_STATE, v')
         \<and> mActiveId v' = - 1)"
proof -
  have h: "16 < FF_MAX_EFFECTS" "asyncReady env_flip_fails" "mIsDual vib_dual"
    "waveformType click_chunk = WAVEFORM_COMPOSE \<or> waveformType click_chunk = WAVEFORM_PWLE"
    "bytes click_chunk \<le> unat (getOwtFreeSpace (mHwApiDef env_flip_fails))"
    "bytes click_chunk \<le> unat (getOwtFreeSpace (mHwApiDual env_flip_fails))"
    "uploadOwtEffect (mHwApiDef env_flip_fails) (take (bytes click_chunk) (head click_chunk))
        (mFfEffects (on_arm_trigger (waveformType click_chunk) vib_dual) (waveformType click_chunk))
        (waveformType click_chunk)
      = (True, eff0\<lparr>ff_id := 14\<rparr>, 14, STATUS_OK)"
    "14 < WAVEFORM_MAX_INDEX"
    "uploadOwtEffect (mHwApiDual env_flip_fails) (take (bytes click_chunk) (head click_chunk))
        (mFfEffectsDual (on_arm_trigger (waveformType click_chunk) vib_dual) 14) 14
      = (False, eff0, 14, EX_ILLEGAL_STATE)"
    by (simp_all add: FF_MAX_EFFECTS_def env_flip_fails_def env_ok_def hw_ok_def hw_upload_fails_def
        vib_dual_def vib0_def click_chunk_def WAVEFORM_COMPOSE_def WAVEFORM_MAX_INDEX_def
        on_arm_trigger_def)
  have w: "waveformType click_chunk = WAVEFORM_COMPOSE" "mActiveId vib_dual = - 1"
    by (simp_all add: click_chunk_def WAVEFORM_COMPOSE_def vib_dual_def vib0_def)
  from on_secondary_upload_failure [OF h, of 65535 None]
  have "\<exists>v'. Vibrator_on env_flip_fails 65535 16 (Some click_chunk) None vib_dual = Inr (EX_ILLEGAL_STATE, v')
         \<and> mActiveId v' = - 1"
    unfolding w by blast
  then show ?thesis using h w by simp
qed

text \<open>
  The claim that the error is always \<open>IllegalState\<close> fails when the secondary upload
  reports another exception code: here \<open>EX_ILLEGAL_ARGUMENT\<close>.
\<close>

theorem on_secondary_upload_other_code:
  "fst (uploadOwtEffect (mHwApiDef env_flip_rejects) (take 12 (head click_chunk)) eff0 14)
   \<and> \<not> fst (uploadOwtEffect (mHwApiDual env_flip_rejects) (take 12 (head click_chunk)) eff0 14)
   \<and> map_sum id fst (Vibrator_on env_flip_rejects 65535 16 (Some click_chunk) None vib_dual)
       = Inr EX_ILLEGAL_ARGUMENT
   \<and> map_sum id fst (Vibrator_on env_flip_rejects 65535 16 (Some click_chunk) None vib_dual)
       \<noteq> Inr EX_ILLEGAL_STATE
   \<and> map_sum id (\<lambda>r. hwlog (snd r)) (Vibrator_on env_flip_rejects 65535 16 (Some click_chunk) None vib_dual)
       = Inr [(GetOwtFreeSpace Base, - 1), (GetOwtFreeSpace Flip, - 1),
              (UploadOwtEffect Base (take 12 (head click_chunk)) 14, - 1),
              (UploadOwtEffect Flip (take 12 (head click_chunk)) 14, - 1)]"
  by (simp add: Vibrator_on_def on_upload_def on_arm_trigger_def Let_def logcall_def FF_MAX_EFFECTS_def
      env_flip_rejects_def env_ok_def hw_ok_def hw_upload_rejects_def vib_dual_def vib0_def
      click_chunk_def WAVEFORM_COMPOSE_def WAVEFORM_PWLE_def WAVEFORM_MAX_INDEX_def)

section \<open>updateWLength\<close>

lemma m8: "(0xFF :: 32 word) = mask 8" by (simp add: mask_eq_exp_minus_1)

lemma be32_bytes:
  "be32 (ucast (drop_bit 24 t AND 0xFF)) (ucast (drop_bit 16 t AND 0xFF))
        (ucast (drop_bit 8 t AND 0xFF)) (ucast (t AND 0xFF)) = (t :: 32 word)"
  unfolding be32_def m8
proof (rule bit_word_eqI)
  fix n :: nat
  assume "n < LENGTH(32)"
  then have n: "n < 32" by simp
  consider "n < 8" | "8 \<le> n" "n < 16" | "16 \<le> n" "n < 24" | "24 \<le> n"
    by linarith
  then show "bit (push_bit 24 (ucast (ucast (drop_bit 24 t AND mask 8) :: 8 word)) OR
         push_bit 16 (ucast (ucast (drop_bit 16 t AND mask 8) :: 8 word)) OR
         push_bit 8 (ucast (ucast (drop_bit 8 t AND mask 8) :: 8 word)) OR
         ucast (ucast (t AND mask 8) :: 8 word) :: 32 word) n = bit t n"
    using n by cases (auto simp: bit_simps)
qed

lemma high_bits_clear:
  fixes x :: "32 word"
  assumes "x < 2 ^ k" "k \<le> n"
  shows "\<not> bit x n"
proof -
  have "x AND mask k = x" using assms(1) by (rule less_mask_eq)
  then have "bit x n = bit (x AND mask k) n" by simp
  then show ?thesis using assms(2) by (simp add: bit_simps)
qed

lemma scaled_small:
  assumes "d \<le> (0x7FFFF :: 32 word)"
  shows "unat (d * 8) = 8 * unat d"
    and "ucast (drop_bit 24 ((d * 8) OR WT_LEN_CALCD) AND 0xFF) = (0 :: 8 word)"
proof -
  have u: "unat d \<le> 0x7FFFF" using assms by (simp add: word_le_nat_alt)
  then show a: "unat (d * 8) = 8 * unat d"
    by (simp add: unat_word_ariths)
  have "unat (d * 8) < 2 ^ 24" using a u by simp
  then have "d * 8 < 2 ^ 24" by (simp add: word_less_nat_alt)
  then have b: "\<not> bit (d * 8) n" if "24 \<le> n" for n
    using that high_bits_clear by blast
  have w: "WT_LEN_CALCD = 2 ^ 23" by (simp add: WT_LEN_CALCD_def)
  show "ucast (drop_bit 24 ((d * 8) OR WT_LEN_CALCD) AND 0xFF) = (0 :: 8 word)"
    unfolding m8 w
    by (rule bit_word_eqI) (use b in \<open>simp add: bit_simps\<close>)
qed

text \<open>
  C4, as the code has it. \<open>updateWLength\<close> returns 0 only on a PWLE chunk. On a PWLE
  chunk it rejects, with \<open>-EINVAL\<close> and the chunk untouched, every total duration above
  \<open>0x7FFFF\<close>: the bound is on the duration in milliseconds, not on its scaled encoding.
  For every duration up to \<open>0x7FFFF\<close> it returns 0, the scaled duration is eight times
  the duration without wrap-around, bytes 0 to 3 of the header hold, in big-endian order,
  the scaled duration OR-ed with \<open>WT_LEN_CALCD\<close> (byte 0 is 0), and nothing else in the
  chunk changes.
\<close>

theorem updateWLength_spec:
  assumes "4 \<le> length (head ch)"
  shows "(\<forall>ch'. updateWLength d ch = Inr (0, ch') \<longrightarrow> waveformType ch = WAVEFORM_PWLE)
    \<and> (waveformType ch = WAVEFORM_PWLE \<and> 0x7FFFF < d \<longrightarrow> updateWLength d ch = Inr (- EINVAL, ch))
    \<and> (waveformType ch = WAVEFORM_PWLE \<and> d \<le> 0x7FFFF \<longrightarrow>
         (\<exists>h. updateWLength d ch = Inr (0, ch\<lparr>head := h\<rparr>)
            \<and> length h = length (head ch)
            \<and> be32 (h ! 0) (h ! 1) (h ! 2) (h ! 3) = (d * 8) OR WT_LEN_CALCD
            \<and> unat (d * 8) = 8 * unat d
            \<and> h ! 0 = 0
            \<and> drop 4 h = drop 4 (head ch)))"
proof (intro conjI allI impI)
  fix ch'
  assume "updateWLength d ch = Inr (0, ch')"
  then show "waveformType ch = WAVEFORM_PWLE"
    by (auto simp: updateWLength_def EDOM_def split: if_splits)
next
  assume "waveformType ch = WAVEFORM_PWLE \<and> 0x7FFFF < d"
  then show "updateWLength d ch = Inr (- EINVAL, ch)"
    by (simp add: updateWLength_def)
next
  assume a: "waveformType ch = WAVEFORM_PWLE \<and> d \<le> 0x7FFFF"
  define t where "t = (d * 8) OR WT_LEN_CALCD"
  define h where "h = (head ch)[0 := ucast (drop_bit 24 t AND 0xFF), 1 := ucast (drop_bit 16 t AND 0xFF),
      2 := ucast (drop_bit 8 t AND 0xFF), 3 := ucast (t AND 0xFF)]"
  have c: "(waveformType ch \<noteq> WAVEFORM_PWLE) = False" "(0x7FFFF < d) = False"
      "(length (head ch) < 4) = False"
    using a assms by (simp_all add: not_less)
  have r: "updateWLength d ch = Inr (0, ch\<lparr>head := h\<rparr>)"
    by (simp only: updateWLength_def c if_False Let_def h_def t_def)
  have l: "0 < length (head ch)" "1 < length (head ch)" "2 < length (head ch)" "3 < length (head ch)"
    using assms by auto
  have hb: "h ! 0 = ucast (drop_bit 24 t AND 0xFF)" "h ! 1 = ucast (drop_bit 16 t AND 0xFF)"
     "h ! 2 = ucast (drop_bit 8 t AND 0xFF)" "h ! 3 = ucast (t AND 0xFF)"
    using l by (simp_all add: h_def nth_list_update)
  have "be32 (h ! 0) (h ! 1) (h ! 2) (h ! 3) = t"
    unfolding hb by (rule be32_bytes)
  moreover have "h ! 0 = 0" unfolding hb t_def using scaled_small(2) a by blast
  moreover have "drop 4 h = drop 4 (head ch)" by (simp add: h_def)
  moreover have "length h = length (head ch)" by (simp add: h_def)
  ultimately show "\<exists>h. updateWLength d ch = Inr (0, ch\<lparr>head := h\<rparr>)
            \<and> length h = length (head ch)
            \<and> be32 (h ! 0) (h ! 1) (h ! 2) (h ! 3) = (d * 8) OR WT_LEN_CALCD
            \<and> unat (d * 8) = 8 * unat d
            \<and> h ! 0 = 0
            \<and> drop 4 h = drop 4 (head ch)"
    using r scaled_small(1) a unfolding t_def by blast
qed

theorem updateWLength_spec_witness:
  "4 \<le> length (head fresh_pwle_chunk) \<and> waveformType fresh_pwle_chunk = WAVEFORM_PWLE
   \<and> (106 :: 32 word) \<le> 0x7FFFF \<and> (0x7FFFF :: 32 word) < 0x80000
   \<and> updateWLength 0x80000 fresh_pwle_chunk = Inr (- EINVAL, fresh_pwle_chunk)
   \<and> (\<exists>h. updateWLength 106 fresh_pwle_chunk = Inr (0, fresh_pwle_chunk\<lparr>head := h\<rparr>)
          \<and> be32 (h ! 0) (h ! 1) (h ! 2) (h ! 3) = 0x800350 \<and> h ! 0 = 0)"
proof -
  have h: "4 \<le> length (head fresh_pwle_chunk)" "waveformType fresh_pwle_chunk = WAVEFORM_PWLE"
    "(106 :: 32 word) \<le> 0x7FFFF" "(0x7FFFF :: 32 word) < 0x80000"
    by (simp_all add: fresh_pwle_chunk_def WAVEFORM_PWLE_def)
  have v: "(848 :: 32 word) OR WT_LEN_CALCD = 0x800350"
    by (simp add: WT_LEN_CALCD_def)
  show ?thesis
    using updateWLength_spec [OF h(1), of 106] updateWLength_spec [OF h(1), of "0x80000"] h
    by (simp add: v) blast
qed

text \<open>
  The claimed bound fails at 65536 ms: the scaled encoding \<open>65536 * 8 = 2^19\<close> needs 20
  bits, and the duration is accepted.
\<close>

theorem updateWLength_accepts_20_bit_encoding:
  "map_sum id fst (updateWLength 65536 fresh_pwle_chunk) = Inr 0
   \<and> (2 :: nat) ^ 19 \<le> unat (65536 * 8 :: 32 word)"
  by (simp add: updateWLength_def fresh_pwle_chunk_def WAVEFORM_PWLE_def Let_def)

section \<open>The blob of composePwle stays within its array\<close>

lemma yields_Inr: "Q a \<Longrightarrow> yields Q (Inr a)"
  by (simp add: yields_def)

lemma yields_float: "yields Q (Inl FloatToIntOutOfRange)"
  by (simp add: yields_def)

lemma yields_bnd:
  "yields P m \<Longrightarrow> (\<And>a. P a \<Longrightarrow> yields Q (f a)) \<Longrightarrow> yields Q (bnd m f)"
  by (cases m) (auto simp: yields_def chunk_fault_def)

lemma yields_if:
  "(c \<Longrightarrow> yields Q a) \<Longrightarrow> (\<not> c \<Longrightarrow> yields Q b) \<Longrightarrow> yields Q (if c then a else b)"
  by simp

lemma yields_prod:
  "(\<And>a b. p = (a, b) \<Longrightarrow> yields Q (f a b)) \<Longrightarrow> yields Q (case p of (a, b) \<Rightarrow> f a b)"
  by (cases p) simp

lemma yields_sum:
  "(\<And>a. p = Inl a \<Longrightarrow> yields Q (f a)) \<Longrightarrow> (\<And>b. p = Inr b \<Longrightarrow> yields Q (g b))
     \<Longrightarrow> yields Q (case p of Inl a \<Rightarrow> f a | Inr b \<Rightarrow> g b)"
  by (cases p) simp_all

lemma yields_weaken: "yields P r \<Longrightarrow> (\<And>x. P x \<Longrightarrow> Q x) \<Longrightarrow> yields Q r"
  by (auto simp: yields_def)

lemma yields_True: "\<not> chunk_fault r \<Longrightarrow> yields (\<lambda>x. True) r"
  by (simp add: yields_def)

lemma yieldsD: "yields Q r \<Longrightarrow> r = Inr x \<Longrightarrow> Q x"
  by (simp add: yields_def)

lemma yields_no_fault: "yields Q r \<Longrightarrow> \<not> chunk_fault r"
  by (simp add: yields_def)

lemma fToU16_yields: "yields (\<lambda>x. True) (fToU16 i s a b)"
  unfolding fToU16_def
  by (intro yields_if yields_Inr yields_bnd [OF yields_True [OF float_to_unsigned_fault]]) simp_all

lemma constructPwleSegment_grows:
  assumes "chunk_ok ch" "bits_written ch + 48 \<le> capacity_bits ch" "flags AND PWLE_AMP_REG_BIT = 0"
  shows "\<exists>ch'. constructPwleSegment d a f flags t ch = Inr ch' \<and> grown_by 48 ch ch'"
proof -
  obtain c1 where c1: "wr 16 (ucast d) ch = Inr c1" "grown_by 16 ch c1" "bits_written c1 = bits_written ch + 16"
    using wr_grows [of ch 16 "ucast d"] assms by auto
  have k1: "capacity_bits c1 = capacity_bits ch" using c1(2) by (rule grown_by_capacity)
  obtain c2 where c2: "wr 12 (ucast a) c1 = Inr c2" "grown_by 12 c1 c2" "bits_written c2 = bits_written c1 + 12"
    using wr_grows [of c1 12 "ucast a"] assms c1 k1 by (auto simp: grown_by_def)
  have k2: "capacity_bits c2 = capacity_bits ch" using c2(2) k1 by (simp add: grown_by_capacity)
  obtain c3 where c3: "wr 12 (ucast f) c2 = Inr c3" "grown_by 12 c2 c3" "bits_written c3 = bits_written c2 + 12"
    using wr_grows [of c2 12 "ucast f"] assms c1 c2 k2 by (auto simp: grown_by_def)
  have k3: "capacity_bits c3 = capacity_bits ch" using c3(2) k2 by (simp add: grown_by_capacity)
  obtain c4 where c4: "wr 8 (push_bit 4 (ucast (flags OR 1))) c3 = Inr c4" "grown_by 8 c3 c4"
      "bits_written c4 = bits_written c3 + 8"
    using wr_grows [of c3 8 "push_bit 4 (ucast (flags OR 1))"] assms c1 c2 c3 k3 by (auto simp: grown_by_def)
  have "grown_by 48 ch c4"
    using c1 c2 c3 c4 by (auto simp: grown_by_def)
  moreover have "constructPwleSegment d a f flags t ch = Inr c4"
    using assms(3) c1(1) c2(1) c3(1) c4(1) by (simp add: constructPwleSegment_def)
  ultimately show ?thesis by blast
qed

lemma constructPwleSegment_yields:
  assumes "chunk_ok ch" "bits_written ch + 48 \<le> capacity_bits ch" "flags AND PWLE_AMP_REG_BIT = 0"
  shows "yields (grown_by 48 ch) (constructPwleSegment d a f flags t ch)"
  using constructPwleSegment_grows [OF assms, of d a f t] by (auto simp: yields_def)

lemma flags_no_amp_reg:
  "(if chirp then 0 OR PWLE_CHIRP_BIT else 0) AND PWLE_AMP_REG_BIT = 0"
  "(if b \<noteq> (0::int) then 0 OR PWLE_BRAKE_BIT else 0) AND PWLE_AMP_REG_BIT = 0"
  by (simp_all add: PWLE_CHIRP_BIT_def PWLE_BRAKE_BIT_def PWLE_AMP_REG_BIT_def)

lemma constructActiveSegment_yields:
  assumes "chunk_ok ch" "bits_written ch + 48 \<le> capacity_bits ch"
  shows "yields (\<lambda>x. grown_by 48 ch (snd x)) (constructActiveSegment dur amp freq chirp ch)"
proof -
  have same: "grown_by 48 ch ch" using assms(1) by (simp add: grown_by_def)
  show ?thesis
    unfolding constructActiveSegment_def Let_def
    by (intro yields_if yields_prod yields_bnd [OF fToU16_yields] yields_Inr
        yields_bnd [OF constructPwleSegment_yields [OF assms flags_no_amp_reg(1)]])
      (simp_all add: same)
qed

lemma constructBrakingSegment_yields:
  assumes "chunk_ok ch" "bits_written ch + 48 \<le> capacity_bits ch"
  shows "yields (\<lambda>x. grown_by 48 ch (snd x)) (constructBrakingSegment dur b ch)"
proof -
  have same: "grown_by 48 ch ch" using assms(1) by (simp add: grown_by_def)
  show ?thesis
    unfolding constructBrakingSegment_def Let_def
    by (intro yields_if yields_prod yields_bnd [OF fToU16_yields] yields_Inr
        yields_bnd [OF constructPwleSegment_yields [OF assms flags_no_amp_reg(2)]])
      (simp_all add: same)
qed


lemma grown_by_room:
  "grown_by n ch ch1 \<Longrightarrow> bits_written ch + n + m \<le> capacity_bits ch
     \<Longrightarrow> chunk_ok ch1 \<and> bits_written ch1 + m \<le> capacity_bits ch1"
  by (auto simp: grown_by_def capacity_bits_def)

lemma pwle_set_point_yields:
  assumes "chunk_ok (pwle_ch st)" "bits_written (pwle_ch st) + 48 \<le> capacity_bits (pwle_ch st)"
  shows "yields (\<lambda>r. case r of Inl s \<Rightarrow> True | Inr (ch1, idx) \<Rightarrow> grown_by 48 (pwle_ch st) ch1)
           (pwle_set_point a f st)"
proof -
  have same: "grown_by 48 (pwle_ch st) (pwle_ch st)" using assms(1) by (simp add: grown_by_def)
  show ?thesis
    unfolding pwle_set_point_def
    by (intro yields_if yields_prod yields_Inr yields_bnd [OF constructActiveSegment_yields [OF assms]])
      (simp_all add: same)
qed

lemma pwle_active_yields:
  assumes "chunk_ok (pwle_ch st)" "bits_written (pwle_ch st) + 96 \<le> capacity_bits (pwle_ch st)"
  shows "yields (\<lambda>r. case r of Inl s \<Rightarrow> True | Inr st' \<Rightarrow> grown_by 96 (pwle_ch st) (pwle_ch st'))
           (pwle_active sa sf ea ef d st)"
proof -
  let ?ch = "pwle_ch st"
  let ?Q = "\<lambda>r. case r of Inl s \<Rightarrow> True | Inr st' \<Rightarrow> grown_by 96 ?ch (pwle_ch st')"
  have a48: "bits_written ?ch + 48 \<le> capacity_bits ?ch" using assms(2) by simp
  have cont: "yields ?Q (case r of Inl s \<Rightarrow> Inr (Inl s)
                 | Inr (ch1, idx1) \<Rightarrow>
                     bnd (constructActiveSegment d e2 f2 c ch1) (\<lambda>(rc, ch2).
                        if rc < 0 then Inr (Inl EX_ILLEGAL_ARGUMENT)
                        else Inr (Inr \<lparr>segmentIdx = idx1 + 1,
                                       totalDuration = totalDuration st + word_of_int d,
                                       prevEndAmplitude = e2,
                                       prevEndFrequency = f2,
                                       pwle_ch = ch2\<rparr>)))"
    if p: "case r of Inl s \<Rightarrow> True | Inr (ch1, idx) \<Rightarrow> grown_by 48 ?ch ch1" for r e2 f2 c
  proof (cases r)
    case (Inl s)
    then show ?thesis by (simp add: yields_Inr)
  next
    case (Inr x)
    obtain ch1 idx1 where x: "x = (ch1, idx1)" by (cases x) auto
    have g1: "grown_by 48 ?ch ch1" using p Inr x by simp
    have r1: "chunk_ok ch1" "bits_written ch1 + 48 \<le> capacity_bits ch1"
      using grown_by_room [OF g1, of 48] assms(2) by auto
    have "yields ?Q (bnd (constructActiveSegment d e2 f2 c ch1) (\<lambda>(rc, ch2).
                        if rc < 0 then Inr (Inl EX_ILLEGAL_ARGUMENT)
                        else Inr (Inr \<lparr>segmentIdx = idx1 + 1,
                                       totalDuration = totalDuration st + word_of_int d,
                                       prevEndAmplitude = e2,
                                       prevEndFrequency = f2,
                                       pwle_ch = ch2\<rparr>)))"
    proof (rule yields_bnd [OF constructActiveSegment_yields [OF r1]])
      fix y :: "int \<times> DspMemChunk"
      assume "grown_by 48 ch1 (snd y)"
      then have "grown_by 96 ?ch (snd y)"
        using grown_by_trans [OF g1, of 48 "snd y"] by simp
      then show "yields ?Q (case y of (rc, ch2) \<Rightarrow>
                        if rc < 0 then Inr (Inl EX_ILLEGAL_ARGUMENT)
                        else Inr (Inr \<lparr>segmentIdx = idx1 + 1,
                                       totalDuration = totalDuration st + word_of_int d,
                                       prevEndAmplitude = e2,
                                       prevEndFrequency = f2,
                                       pwle_ch = ch2\<rparr>))"
        by (cases y) (simp add: yields_Inr)
    qed
    then show ?thesis using Inr x by simp
  qed
  show ?thesis
    unfolding pwle_active_def Let_def
    by (intro yields_if yields_Inr yields_bnd [OF pwle_set_point_yields [OF assms(1) a48]] cont)
      simp_all
qed

lemma pwle_braking_yields:
  assumes "chunk_ok (pwle_ch st)" "bits_written (pwle_ch st) + 96 \<le> capacity_bits (pwle_ch st)"
  shows "yields (\<lambda>r. case r of Inl s \<Rightarrow> True | Inr st' \<Rightarrow> grown_by 96 (pwle_ch st) (pwle_ch st'))
           (pwle_braking isClab b d st)"
proof -
  let ?ch = "pwle_ch st"
  let ?Q = "\<lambda>r. case r of Inl s \<Rightarrow> True | Inr st' \<Rightarrow> grown_by 96 ?ch (pwle_ch st')"
  have a48: "bits_written ?ch + 48 \<le> capacity_bits ?ch" using assms(2) by simp
  have cont: "yields ?Q (case y of (rc1, ch1) \<Rightarrow>
          if rc1 < 0 then Inr (Inl EX_ILLEGAL_ARGUMENT)
          else
            bnd (constructBrakingSegment d b ch1) (\<lambda>(rc2, ch2).
              if rc2 < 0 then Inr (Inl EX_ILLEGAL_ARGUMENT)
              else Inr (Inr (resetPreviousEndAmplitudeEndFrequency
                               (st\<lparr>segmentIdx := segmentIdx st + 2,
                                   totalDuration := totalDuration st + word_of_int d,
                                   pwle_ch := ch2\<rparr>)))))"
    if p: "grown_by 48 ?ch (snd y)" for y
  proof -
    obtain rc1 ch1 where y: "y = (rc1, ch1)" by (cases y) auto
    have g1: "grown_by 48 ?ch ch1" using p y by simp
    have r1: "chunk_ok ch1" "bits_written ch1 + 48 \<le> capacity_bits ch1"
      using grown_by_room [OF g1, of 48] assms(2) by auto
    have "yields ?Q (bnd (constructBrakingSegment d b ch1) (\<lambda>(rc2, ch2).
              if rc2 < 0 then Inr (Inl EX_ILLEGAL_ARGUMENT)
              else Inr (Inr (resetPreviousEndAmplitudeEndFrequency
                               (st\<lparr>segmentIdx := segmentIdx st + 2,
                                   totalDuration := totalDuration st + word_of_int d,
                                   pwle_ch := ch2\<rparr>)))))"
    proof (rule yields_bnd [OF constructBrakingSegment_yields [OF r1]])
      fix z :: "int \<times> DspMemChunk"
      assume "grown_by 48 ch1 (snd z)"
      then have "grown_by 96 ?ch (snd z)"
        using grown_by_trans [OF g1, of 48 "snd z"] by simp
      then show "yields ?Q (case z of (rc2, ch2) \<Rightarrow>
              if rc2 < 0 then Inr (Inl EX_ILLEGAL_ARGUMENT)
              else Inr (Inr (resetPreviousEndAmplitudeEndFrequency
                               (st\<lparr>segmentIdx := segmentIdx st + 2,
                                   totalDuration := totalDuration st + word_of_int d,
                                   pwle_ch := ch2\<rparr>))))"
        by (cases z) (simp add: yields_Inr resetPreviousEndAmplitudeEndFrequency_def)
    qed
    then show ?thesis using y by (simp add: yields_Inr)
  qed
  show ?thesis
    unfolding pwle_braking_def
    by (intro yields_if yields_Inr yields_bnd [OF constructBrakingSegment_yields [OF assms(1) a48]] cont)
      simp_all
qed

lemma pwle_body_yields:
  assumes "chunk_ok (pwle_ch st)" "bits_written (pwle_ch st) + 96 \<le> capacity_bits (pwle_ch st)"
  shows "yields (\<lambda>r. case r of Inl s \<Rightarrow> True | Inr st' \<Rightarrow> grown_by 96 (pwle_ch st) (pwle_ch st'))
           (pwle_body isClab e st)"
proof -
  have el: "yields (\<lambda>r. case r of Inl s \<Rightarrow> True | Inr st' \<Rightarrow> grown_by 96 (pwle_ch st) (pwle_ch st'))
           (pwle_element isClab e st)"
    by (cases e) (simp_all add: pwle_active_yields [OF assms] pwle_braking_yields [OF assms])
  show ?thesis
    unfolding pwle_body_def
    by (rule yields_bnd [OF el]) (auto split: sum.splits intro!: yields_Inr)
qed

lemma pwle_loop_yields:
  assumes "chunk_ok (pwle_ch st)" "bits_written (pwle_ch st) + 96 * length es \<le> capacity_bits (pwle_ch st)"
  shows "yields (\<lambda>r. case r of Inl s \<Rightarrow> True
                     | Inr st' \<Rightarrow> grown_by (96 * length es) (pwle_ch st) (pwle_ch st'))
           (pwle_loop isClab es st)"
  using assms
proof (induction es arbitrary: st)
  case Nil
  then show ?case by (simp add: yields_Inr grown_by_def)
next
  case (Cons e es)
  have b96: "bits_written (pwle_ch st) + 96 \<le> capacity_bits (pwle_ch st)" using Cons.prems(2) by simp
  show ?case
    unfolding pwle_loop.simps
  proof (rule yields_bnd [OF pwle_body_yields [OF Cons.prems(1) b96]])
    fix r :: "status + pwle_locals"
    assume p: "case r of Inl s \<Rightarrow> True | Inr st' \<Rightarrow> grown_by 96 (pwle_ch st) (pwle_ch st')"
    show "yields (\<lambda>r. case r of Inl s \<Rightarrow> True
                     | Inr st' \<Rightarrow> grown_by (96 * length (e # es)) (pwle_ch st) (pwle_ch st'))
            (case r of Inl s \<Rightarrow> Inr (Inl s) | Inr st' \<Rightarrow> pwle_loop isClab es st')"
    proof (cases r)
      case (Inl s)
      then show ?thesis by (simp add: yields_Inr)
    next
      case (Inr st1)
      have g1: "grown_by 96 (pwle_ch st) (pwle_ch st1)" using p Inr by simp
      have r1: "chunk_ok (pwle_ch st1)"
        "bits_written (pwle_ch st1) + 96 * length es \<le> capacity_bits (pwle_ch st1)"
        using grown_by_room [OF g1, of "96 * length es"] Cons.prems(2) by auto
      have "yields (\<lambda>r. case r of Inl s \<Rightarrow> True
                     | Inr st' \<Rightarrow> grown_by (96 * length (e # es)) (pwle_ch st) (pwle_ch st'))
              (pwle_loop isClab es st1)"
      proof (rule yields_weaken [OF Cons.IH [OF r1]])
        fix x :: "status + pwle_locals"
        assume "case x of Inl s \<Rightarrow> True | Inr st' \<Rightarrow> grown_by (96 * length es) (pwle_ch st1) (pwle_ch st')"
        show "case x of Inl s \<Rightarrow> True
                     | Inr st' \<Rightarrow> grown_by (96 * length (e # es)) (pwle_ch st) (pwle_ch st')"
        proof (cases x)
          case (Inl s)
          then show ?thesis by simp
        next
          case (Inr b)
          with \<open>case x of Inl s \<Rightarrow> True | Inr st' \<Rightarrow> grown_by (96 * length es) (pwle_ch st1) (pwle_ch st')\<close>
          have "grown_by (96 * length es) (pwle_ch st1) (pwle_ch b)" by simp
          from grown_by_trans [OF g1 this]
          have "grown_by (96 + 96 * length es) (pwle_ch st) (pwle_ch b)" by (simp add: add.commute)
          then show ?thesis using Inr by simp
        qed
      qed
      then show ?thesis using Inr by simp
    qed
  qed
qed


lemma chunk_ok_head:
  assumes "chunk_ok ch" "length h = length (head ch)" "\<And>i. 4 * i < length h \<Longrightarrow> h ! (4 * i) = 0"
  shows "chunk_ok (ch\<lparr>head := h\<rparr>)"
  using assms by (simp add: chunk_ok_def)

lemma updateWLength_ok:
  assumes "chunk_ok ch" "waveformType ch = WAVEFORM_PWLE" "d \<le> 0x7FFFF" "4 \<le> length (head ch)"
  shows "\<exists>ch'. updateWLength d ch = Inr (0, ch') \<and> chunk_ok ch' \<and> max_ptr ch' = max_ptr ch
            \<and> waveformType ch' = waveformType ch \<and> bytes ch' = bytes ch"
proof -
  define t where "t = (d * 8) OR WT_LEN_CALCD"
  define h where "h = (head ch)[0 := ucast (drop_bit 24 t AND 0xFF), 1 := ucast (drop_bit 16 t AND 0xFF),
                    2 := ucast (drop_bit 8 t AND 0xFF), 3 := ucast (t AND 0xFF)]"
  have nd: "\<not> 0x7FFFF < d" using assms(3) by simp
  have nl: "\<not> length (head ch) < 4" using assms(4) by simp
  have r: "updateWLength d ch = Inr (0, ch\<lparr>head := h\<rparr>)"
    using assms(2) nd nl by (simp add: updateWLength_def Let_def h_def t_def)
  have z: "ucast (drop_bit 24 t AND 0xFF) = (0 :: 8 word)"
    unfolding t_def using scaled_small(2) [OF assms(3)] .
  have old: "head ch ! (4 * i) = 0" if "4 * i < length (head ch)" for i
    using assms(1) that by (simp add: chunk_ok_def)
  have "h ! (4 * i) = 0" if "4 * i < length h" for i
  proof (cases "i = 0")
    case True
    have l0: "head ch \<noteq> []" using assms(4) by (cases "head ch") simp_all
    show ?thesis using True l0 by (simp add: h_def z)
  next
    case False
    then show ?thesis using old [of i] that by (simp add: h_def)
  qed
  then have "chunk_ok (ch\<lparr>head := h\<rparr>)"
    by (intro chunk_ok_head [OF assms(1)]) (simp_all add: h_def)
  then show ?thesis using r assms(1) by (simp add: chunk_ok_def)
qed

lemma updateNSection_pwle_ok:
  assumes "chunk_ok ch" "waveformType ch = WAVEFORM_PWLE" "9 < length (head ch)"
  shows "yields (\<lambda>x. 0 \<le> fst x \<longrightarrow> chunk_ok (snd x) \<and> max_ptr (snd x) = max_ptr ch
            \<and> waveformType (snd x) = waveformType ch \<and> bytes (snd x) = bytes ch)
          (updateNSection n ch)"
proof (cases "int COMPOSE_PWLE_SIZE_MAX_DEFAULT < n")
  case True
  then show ?thesis
    using assms(2) by (simp add: updateNSection_def WAVEFORM_PWLE_def WAVEFORM_COMPOSE_def yields_Inr EINVAL_def)
next
  case False
  define h7 where "h7 = (head ch)[7 := head ch ! 7 OR drop_bit 4 (word_of_int n AND 0xF0)]"
  define h9 where "h9 = h7[9 := h7 ! 9 OR push_bit 4 (word_of_int n AND 0x0F)]"
  have nl: "\<not> length (head ch) \<le> 9" using assms(3) by simp
  have r: "updateNSection n ch = Inr (0, ch\<lparr>head := h9\<rparr>)"
    using assms(2) False nl
    by (simp add: updateNSection_def WAVEFORM_PWLE_def WAVEFORM_COMPOSE_def Let_def h7_def h9_def)
  have old: "head ch ! (4 * i) = 0" if "4 * i < length (head ch)" for i
    using assms(1) that by (simp add: chunk_ok_def)
  have ne: "4 * i \<noteq> 7" "4 * i \<noteq> 9" for i :: nat by presburger+
  have "h9 ! (4 * i) = 0" if "4 * i < length h9" for i
    using old [of i] that ne [of i] by (simp add: h9_def h7_def)
  then have "chunk_ok (ch\<lparr>head := h9\<rparr>)"
    by (intro chunk_ok_head [OF assms(1)]) (simp_all add: h9_def h7_def)
  then show ?thesis using r assms(1) by (simp add: chunk_ok_def yields_Inr)
qed

lemma pwle_finish_yields:
  assumes "chunk_ok (pwle_ch st)" "bits_written (pwle_ch st) \<le> capacity_bits (pwle_ch st)"
    "max_ptr (pwle_ch st) = 2302" "waveformType (pwle_ch st) = WAVEFORM_PWLE"
  shows "yields (\<lambda>r. case r of Inl s \<Rightarrow> True
                     | Inr ch \<Rightarrow> chunk_ok ch \<and> current ch \<le> max_ptr ch
                                \<and> max_ptr ch = 2302 \<and> waveformType ch = WAVEFORM_PWLE)
           (pwle_finish st)"
proof -
  let ?Q = "\<lambda>r. case r of Inl s \<Rightarrow> True
                     | Inr ch \<Rightarrow> chunk_ok ch \<and> current ch \<le> max_ptr ch
                                \<and> max_ptr ch = 2302 \<and> waveformType ch = WAVEFORM_PWLE"
  obtain ch1 where f1: "flush (pwle_ch st) = Inr (0, ch1)" "grown_by 23 (pwle_ch st) ch1"
      "bits_written ch1 \<le> capacity_bits (pwle_ch st)"
    using flush_grows [OF assms(1,2)] by blast
  have ok1: "chunk_ok ch1" "max_ptr ch1 = 2302" "waveformType ch1 = WAVEFORM_PWLE"
    using f1(2) assms by (auto simp: grown_by_def)
  have "bits_written ch1 \<le> capacity_bits ch1"
    using f1(3) ok1(2) assms(3) by (simp add: capacity_bits_def)
  then have c1: "bytes ch1 \<le> 2302" using cursor_bound [OF ok1(1)] ok1 by (simp add: chunk_ok_def)
  have len1: "length (head ch1) = 2302" using ok1 by (simp add: chunk_ok_def)
  define total where "total = totalDuration st + of_nat MAX_COLD_START_LATENCY_MS"
  show ?thesis
  proof (cases "0x7FFFF < total")
    case True
    then show ?thesis using f1(1) by (simp add: pwle_finish_def Let_def total_def yields_Inr)
  next
    case False
    then have le: "total \<le> 0x7FFFF" by simp
    have l4: "4 \<le> length (head ch1)" using len1 by simp
    obtain ch2 where u2: "updateWLength total ch1 = Inr (0, ch2)" "chunk_ok ch2"
        "max_ptr ch2 = max_ptr ch1" "waveformType ch2 = waveformType ch1" "bytes ch2 = bytes ch1"
      using updateWLength_ok [OF ok1(1,3) le l4] by blast
    have len2: "9 < length (head ch2)" using u2 ok1 by (simp add: chunk_ok_def)
    have w2: "waveformType ch2 = WAVEFORM_PWLE" using u2 ok1 by simp
    have eq: "pwle_finish st = bnd (updateNSection (segmentIdx st) ch2) (\<lambda>(rc2, ch3).
                  if rc2 < 0 then Inr (Inl EX_ILLEGAL_ARGUMENT) else Inr (Inr ch3))"
      using f1(1) False u2(1) by (simp add: pwle_finish_def Let_def total_def)
    show ?thesis
      unfolding eq
    proof (rule yields_bnd [OF updateNSection_pwle_ok [OF u2(2) w2 len2]])
      fix x :: "int \<times> DspMemChunk"
      assume a: "0 \<le> fst x \<longrightarrow> chunk_ok (snd x) \<and> max_ptr (snd x) = max_ptr ch2
            \<and> waveformType (snd x) = waveformType ch2 \<and> bytes (snd x) = bytes ch2"
      show "yields ?Q (case x of (rc2, ch3) \<Rightarrow>
                  if rc2 < 0 then Inr (Inl EX_ILLEGAL_ARGUMENT) else Inr (Inr ch3))"
        using a u2 ok1 c1 by (cases x) (auto simp: yields_Inr chunk_ok_def)
    qed
  qed
qed

lemma pwle_init_ch [simp]: "pwle_ch (pwle_init ch) = ch"
  by (simp add: pwle_init_def resetPreviousEndAmplitudeEndFrequency_def)

lemma composePwle_build_yields:
  assumes "length pw \<le> COMPOSE_PWLE_SIZE_MAX_DEFAULT"
  shows "yields (\<lambda>r. case r of Inl s \<Rightarrow> True
                     | Inr ch \<Rightarrow> chunk_ok ch \<and> current ch \<le> max_ptr ch
                                \<and> max_ptr ch = 2302 \<and> waveformType ch = WAVEFORM_PWLE)
           (composePwle_build b pw)"
proof -
  let ?Q = "\<lambda>r. case r of Inl s \<Rightarrow> True
                     | Inr ch \<Rightarrow> chunk_ok ch \<and> current ch \<le> max_ptr ch
                                \<and> max_ptr ch = 2302 \<and> waveformType ch = WAVEFORM_PWLE"
  have n: "length pw \<le> 127" using assms by (simp add: COMPOSE_PWLE_SIZE_MAX_DEFAULT_def)
  have room: "bits_written (pwle_ch (pwle_init fresh_pwle_chunk)) + 96 * length pw
                \<le> capacity_bits (pwle_ch (pwle_init fresh_pwle_chunk))"
    using n by (simp add: fresh_pwle_ok)
  have ok0: "chunk_ok (pwle_ch (pwle_init fresh_pwle_chunk))" by (simp add: fresh_pwle_ok)
  have eq: "composePwle_build b pw = bnd (pwle_loop b pw (pwle_init fresh_pwle_chunk)) (\<lambda>r.
         case r of Inl s \<Rightarrow> Inr (Inl s) | Inr st \<Rightarrow> pwle_finish st)"
    by (simp add: composePwle_build_def fresh_pwle)
  show ?thesis
    unfolding eq
  proof (rule yields_bnd [OF pwle_loop_yields [OF ok0 room]])
    fix r :: "status + pwle_locals"
    assume a: "case r of Inl s \<Rightarrow> True
         | Inr st' \<Rightarrow> grown_by (96 * length pw) (pwle_ch (pwle_init fresh_pwle_chunk)) (pwle_ch st')"
    show "yields ?Q (case r of Inl s \<Rightarrow> Inr (Inl s) | Inr st \<Rightarrow> pwle_finish st)"
    proof (cases r)
      case (Inl s)
      then show ?thesis by (simp add: yields_Inr)
    next
      case (Inr st)
      have g: "grown_by (96 * length pw) fresh_pwle_chunk (pwle_ch st)" using a Inr by simp
      have ok: "chunk_ok (pwle_ch st)" "bits_written (pwle_ch st) \<le> capacity_bits (pwle_ch st)"
        "max_ptr (pwle_ch st) = 2302" "waveformType (pwle_ch st) = WAVEFORM_PWLE"
        using g n by (auto simp: grown_by_def capacity_bits_def fresh_pwle_ok)
      show ?thesis using Inr pwle_finish_yields [OF ok] by simp
    qed
  qed
qed

section \<open>The cursor stays within the capacity\<close>

lemma amplitudeToScale_fault: "\<not> chunk_fault (amplitudeToScale a m)"
  unfolding amplitudeToScale_def Let_def
  by (rule not_chunk_fault_bnd) (simp_all add: float_to_unsigned_fault)

lemma setEffectAmplitude_fault: "\<not> chunk_fault (setEffectAmplitude env a m v)"
  unfolding setEffectAmplitude_def
  by (rule not_chunk_fault_bnd) (simp_all add: amplitudeToScale_fault Let_def)

lemma on_upload_fault: "\<not> chunk_fault (on_upload env ch v)"
proof (cases "(waveformType ch \<noteq> WAVEFORM_PWLE \<and> waveformType ch \<noteq> WAVEFORM_COMPOSE)
              \<or> unat (getOwtFreeSpace (mHwApiDef env)) < bytes ch
              \<or> (mIsDual v \<and> unat (getOwtFreeSpace (mHwApiDual env)) < bytes ch)")
  case True
  then show ?thesis
    unfolding on_upload_def Let_def by (auto simp: logcall_def)
next
  case False
  obtain ok eff1 idx1 err1 where r1:
    "uploadOwtEffect (mHwApiDef env) (take (bytes ch) (head ch))
       (mFfEffects (on_arm_trigger (waveformType ch) v) (waveformType ch)) (waveformType ch)
     = (ok, eff1, idx1, err1)"
    by (cases "uploadOwtEffect (mHwApiDef env) (take (bytes ch) (head ch))
       (mFfEffects (on_arm_trigger (waveformType ch) v) (waveformType ch)) (waveformType ch)") auto
  obtain ok2 eff2 idx2 err2 where r2:
    "uploadOwtEffect (mHwApiDual env) (take (bytes ch) (head ch))
       (mFfEffectsDual (on_arm_trigger (waveformType ch) v) idx1) idx1
     = (ok2, eff2, idx2, err2)"
    by (cases "uploadOwtEffect (mHwApiDual env) (take (bytes ch) (head ch))
       (mFfEffectsDual (on_arm_trigger (waveformType ch) v) idx1) idx1") auto
  show ?thesis
    unfolding on_upload_def Let_def
    using False
    by (simp add: logcall_def on_arm_trigger_logged r1 r2 chunk_fault_def)
qed

lemma Vibrator_on_fault: "\<not> chunk_fault (Vibrator_on env t i ch cb v)"
proof -
  have u: "\<not> chunk_fault (case ch of Some c \<Rightarrow> on_upload env c v
                      | None \<Rightarrow> Inr (on_edit env t i v))"
    by (cases ch) (simp_all add: on_upload_fault)
  have k: "\<not> chunk_fault (case r of
            (Inl st, v1) \<Rightarrow> Inr (st, v1)
          | (Inr idx, v1) \<Rightarrow>
              (case on_play env idx v1 of
                 (Some st, v2) \<Rightarrow> Inr (st, v2)
               | (None, v2) \<Rightarrow> Inr (STATUS_OK, v2\<lparr>mAsyncHandle := Some cb\<rparr>)))"
    for r :: "(status + nat) \<times> Vibrator"
    by (simp split: prod.splits sum.splits option.splits)
  show ?thesis
    unfolding Vibrator_on_def
    by (simp add: not_chunk_fault_bnd [OF u k])
qed

lemma performEffect_fault: "\<not> chunk_fault (performEffect env i vol ch cb v)"
  unfolding performEffect_def
  by (rule not_chunk_fault_bnd) (auto simp: setEffectAmplitude_fault Vibrator_on_fault)

lemma compose_fault: "\<not> chunk_fault (compose env composite cb v)"
  unfolding compose_def
proof (rule not_chunk_fault_bnd)
  show "\<not> chunk_fault (compose_build env v composite)" using compose_build_facts by blast
next
  fix r :: "status + DspMemChunk"
  show "\<not> chunk_fault (case r of Inl s \<Rightarrow> Inr (s, v)
       | Inr ch \<Rightarrow>
           let v1 = v\<lparr>mFfEffects := (mFfEffects v)
                       (WAVEFORM_COMPOSE := (mFfEffects v WAVEFORM_COMPOSE)\<lparr>replay_length := 0\<rparr>)\<rparr>;
               v2 = (if mIsDual v1
                     then v1\<lparr>mFfEffectsDual := (mFfEffectsDual v1)
                               (WAVEFORM_COMPOSE := (mFfEffectsDual v1 WAVEFORM_COMPOSE)\<lparr>replay_length := 0\<rparr>)\<rparr>
                     else v1)
           in performEffect env WAVEFORM_MAX_INDEX (of_nat VOLTAGE_SCALE_MAX) (Some ch) cb v2)"
    by (cases r) (simp_all add: Let_def performEffect_fault)
qed

lemma composePwle_fault: "\<not> chunk_fault (composePwle env pw cb v)"
proof -
  obtain caps v1 where c: "getCapabilities env v = (caps, v1)" by (cases "getCapabilities env v") auto
  obtain sb v2 where b: "getSupportedBraking env v1 = (sb, v2)" by (cases "getSupportedBraking env v1") auto
  obtain st supported where sb: "sb = (st, supported)" by (cases sb) auto
  show ?thesis
  proof (cases "CAP_COMPOSE_PWLE_EFFECTS \<notin> caps \<or> pw = [] \<or> COMPOSE_PWLE_SIZE_MAX_DEFAULT < length pw")
    case True
    then show ?thesis using c by (auto simp: composePwle_def)
  next
    case False
    then have len: "length pw \<le> COMPOSE_PWLE_SIZE_MAX_DEFAULT" by simp
    have eq: "composePwle env pw cb v =
        bnd (composePwle_build (Braking_CLAB \<in> set supported) pw) (\<lambda>r.
                     case r of
                       Inl s \<Rightarrow> Inr (s, v2)
                     | Inr ch \<Rightarrow>
                         performEffect env WAVEFORM_MAX_INDEX (of_nat VOLTAGE_SCALE_MAX) (Some ch) cb v2)"
      using False c b sb by (simp add: composePwle_def Let_def)
    show ?thesis
      unfolding eq
    proof (rule not_chunk_fault_bnd)
      show "\<not> chunk_fault (composePwle_build (Braking_CLAB \<in> set supported) pw)"
        using composePwle_build_yields [OF len] by (simp add: yields_def)
    next
      fix r :: "status + DspMemChunk"
      show "\<not> chunk_fault (case r of
                       Inl s \<Rightarrow> Inr (s, v2)
                     | Inr ch \<Rightarrow>
                         performEffect env WAVEFORM_MAX_INDEX (of_nat VOLTAGE_SCALE_MAX) (Some ch) cb v2)"
        by (cases r) (simp_all add: performEffect_fault)
    qed
  qed
qed

lemma chunk_write_at_end:
  assumes "cachebits ch \<le> 24" "24 \<le> cachebits ch + nbits" "nbits - (24 - cachebits ch) < 32" "isEnd ch"
  shows "chunk_write nbits val ch =
     Inr (- ENOSPC, ch\<lparr>cache := push_bit (24 - cachebits ch) (cache ch)
                                     OR drop_bit (nbits - (24 - cachebits ch)) val,
                        cachebits := 24\<rparr>)"
proof -
  have nw: "min (24 - cachebits ch) nbits = 24 - cachebits ch"
    using assms by simp
  have cb: "cachebits ch + (24 - cachebits ch) = 24" using assms by simp
  have g: "\<not> (24 < cachebits ch \<or> 32 \<le> nbits - (24 - cachebits ch))"
    using assms by simp
  show ?thesis
    apply (subst chunk_write.simps)
    apply (simp only: nw cb g if_False Let_def)
    using assms(4)
    apply (simp add: isEnd_def)
    done
qed

lemma click_blob: "compose_build env_ok vib0 [click_step 0] = Inr (Inr click_chunk)"
  by code_simp

lemma ramp_blob: "composePwle_build False ramp_and_brake = Inr (Inr pwle_chunk)"
  by code_simp

text \<open>
  C3. No call of \<open>compose\<close> or \<open>composePwle\<close>, whatever the device, the driver and
  the composition, stores outside the array of its chunk or shifts by an out-of-range
  count: the outcome is never \<open>StoreOutOfBounds\<close> or \<open>ShiftCountOutOfRange\<close>. In
  every blob that \<open>compose\<close> builds the cursor is at most the capacity, 2044 bytes,
  which is the length of the array, and \<open>size()\<close> is the cursor; the same holds with
  2302 bytes for every blob that \<open>composePwle\<close> builds from the up to 127 elements
  it admits. A \<open>write\<close> that fills the accumulator while the cursor is at the end of
  the array returns \<open>-ENOSPC\<close> and leaves the array, the cursor and \<open>size()\<close> as
  they were.
\<close>

theorem cursor_within_capacity:
  "\<not> chunk_fault (compose env composite callback v)
   \<and> \<not> chunk_fault (composePwle env pw callback v)
   \<and> (\<forall>ch. compose_build env v composite = Inr (Inr ch) \<longrightarrow>
         current ch \<le> max_ptr ch \<and> max_ptr ch = FF_CUSTOM_DATA_LEN_MAX_COMP
         \<and> length (head ch) = FF_CUSTOM_DATA_LEN_MAX_COMP \<and> bytes ch = current ch)
   \<and> (\<forall>ch. length pw \<le> COMPOSE_PWLE_SIZE_MAX_DEFAULT \<and> composePwle_build clab pw = Inr (Inr ch) \<longrightarrow>
         current ch \<le> max_ptr ch \<and> max_ptr ch = FF_CUSTOM_DATA_LEN_MAX_PWLE
         \<and> length (head ch) = FF_CUSTOM_DATA_LEN_MAX_PWLE \<and> bytes ch = current ch)
   \<and> (\<forall>ch. cachebits ch \<le> 24 \<and> 24 \<le> cachebits ch + nbits \<and> nbits - (24 - cachebits ch) < 32 \<and> isEnd ch \<longrightarrow>
         (\<exists>ch'. chunk_write nbits val ch = Inr (- ENOSPC, ch')
            \<and> head ch' = head ch \<and> current ch' = current ch \<and> bytes ch' = bytes ch))"
proof (intro conjI allI impI)
  show "\<not> chunk_fault (compose env composite callback v)" by (rule compose_fault)
  show "\<not> chunk_fault (composePwle env pw callback v)" by (rule composePwle_fault)
next
  fix ch
  assume a: "compose_build env v composite = Inr (Inr ch)"
  then have f: "chunk_ok ch" "current ch \<le> max_ptr ch" "max_ptr ch = 2044"
    using compose_build_facts [of env v composite] by auto
  show "current ch \<le> max_ptr ch" by (rule f(2))
  show "max_ptr ch = FF_CUSTOM_DATA_LEN_MAX_COMP" using f(3) by (simp add: FF_CUSTOM_DATA_LEN_MAX_COMP_def)
  show "length (head ch) = FF_CUSTOM_DATA_LEN_MAX_COMP"
    using f(1,3) by (simp add: chunk_ok_def FF_CUSTOM_DATA_LEN_MAX_COMP_def)
  show "bytes ch = current ch" using f(1) by (simp add: chunk_ok_def)
next
  fix ch
  assume a: "length pw \<le> COMPOSE_PWLE_SIZE_MAX_DEFAULT \<and> composePwle_build clab pw = Inr (Inr ch)"
  then have f: "chunk_ok ch" "current ch \<le> max_ptr ch" "max_ptr ch = 2302"
    using composePwle_build_yields [of pw clab] by (auto simp: yields_def)
  show "current ch \<le> max_ptr ch" by (rule f(2))
  show "max_ptr ch = FF_CUSTOM_DATA_LEN_MAX_PWLE" using f(3) by (simp add: FF_CUSTOM_DATA_LEN_MAX_PWLE_def)
  show "length (head ch) = FF_CUSTOM_DATA_LEN_MAX_PWLE"
    using f(1,3) by (simp add: chunk_ok_def FF_CUSTOM_DATA_LEN_MAX_PWLE_def)
  show "bytes ch = current ch" using f(1) by (simp add: chunk_ok_def)
next
  fix ch
  assume a: "cachebits ch \<le> 24 \<and> 24 \<le> cachebits ch + nbits \<and> nbits - (24 - cachebits ch) < 32 \<and> isEnd ch"
  then have b: "cachebits ch \<le> 24" "24 \<le> cachebits ch + nbits" "nbits - (24 - cachebits ch) < 32" "isEnd ch"
    by blast+
  show "\<exists>ch'. chunk_write nbits val ch = Inr (- ENOSPC, ch')
            \<and> head ch' = head ch \<and> current ch' = current ch \<and> bytes ch' = bytes ch"
    unfolding chunk_write_at_end [OF b] by simp
qed

theorem cursor_within_capacity_witness:
  "compose_build env_ok vib0 [click_step 0] = Inr (Inr click_chunk)
   \<and> current click_chunk \<le> FF_CUSTOM_DATA_LEN_MAX_COMP
   \<and> length ramp_and_brake \<le> COMPOSE_PWLE_SIZE_MAX_DEFAULT
   \<and> composePwle_build False ramp_and_brake = Inr (Inr pwle_chunk)
   \<and> current pwle_chunk \<le> FF_CUSTOM_DATA_LEN_MAX_PWLE
   \<and> cachebits full_chunk \<le> 24 \<and> 24 \<le> cachebits full_chunk + 24 \<and> isEnd full_chunk
   \<and> (\<exists>ch'. chunk_write 24 0 full_chunk = Inr (- ENOSPC, ch') \<and> current ch' = current full_chunk)"
proof -
  have h: "length ramp_and_brake \<le> COMPOSE_PWLE_SIZE_MAX_DEFAULT"
    "cachebits full_chunk \<le> 24" "24 \<le> cachebits full_chunk + 24"
    "24 - (24 - cachebits full_chunk) < 32" "isEnd full_chunk"
    by (simp_all add: ramp_and_brake_def COMPOSE_PWLE_SIZE_MAX_DEFAULT_def full_chunk_def
        fresh_compose_chunk_def isEnd_def)
  note t = cursor_within_capacity [of env_ok "[click_step 0]" None vib0 ramp_and_brake False 24 0]
  from t click_blob have a: "current click_chunk \<le> FF_CUSTOM_DATA_LEN_MAX_COMP" by auto
  from t ramp_blob h(1) have b: "current pwle_chunk \<le> FF_CUSTOM_DATA_LEN_MAX_PWLE" by auto
  from t h have c: "\<exists>ch'. chunk_write 24 0 full_chunk = Inr (- ENOSPC, ch') \<and> current ch' = current full_chunk"
    by blast
  show ?thesis using a b c h click_blob ramp_blob by simp
qed

section \<open>Four bytes for every 24 bits\<close>

lemma store_cache_nth:
  "k < n \<Longrightarrow> current ch + n \<le> length (head ch) \<Longrightarrow>
   head (store_cache n ch) ! (current ch + k)
     = ucast (drop_bit 24 (push_bit (8 * k) (cache ch) AND 0xFF000000))"
proof (induction n arbitrary: ch k)
  case 0
  then show ?case by simp
next
  case (Suc n)
  show ?case
  proof (cases k)
    case 0
    then show ?thesis using Suc.prems store_cache_first [of ch n] by simp
  next
    case (Suc k')
    define ch' where "ch' = ch\<lparr>head := (head ch)[current ch := ucast (drop_bit 24 (cache ch AND 0xFF000000))],
                       current := current ch + 1,
                       cache := push_bit 8 (cache ch)\<rparr>"
    have "head (store_cache n ch') ! (current ch' + k')
            = ucast (drop_bit 24 (push_bit (8 * k') (cache ch') AND 0xFF000000))"
      using Suc.prems Suc by (intro Suc.IH) (simp_all add: ch'_def)
    then show ?thesis
      using Suc by (simp add: ch'_def push_bit_push_bit add.commute)
  qed
qed

lemma top_mask: "(0xFF000000 :: 32 word) = push_bit 24 (mask 8)"
  by (simp add: mask_eq_exp_minus_1)

lemma byte1: "ucast (drop_bit 24 (push_bit 8 (a :: 32 word) AND 0xFF000000)) = (ucast (drop_bit 16 a) :: 8 word)"
  unfolding top_mask
proof (rule bit_word_eqI)
  fix n assume "n < LENGTH(8)"
  then have n: "n < 8" by simp
  then show "bit (ucast (drop_bit 24 (push_bit 8 a AND push_bit 24 (mask 8))) :: 8 word) n
      = bit (ucast (drop_bit 16 a) :: 8 word) n"
    by (auto simp: bit_simps)
qed

lemma byte2: "ucast (drop_bit 24 (push_bit 16 (a :: 32 word) AND 0xFF000000)) = (ucast (drop_bit 8 a) :: 8 word)"
  unfolding top_mask
proof (rule bit_word_eqI)
  fix n assume "n < LENGTH(8)"
  then have n: "n < 8" by simp
  then show "bit (ucast (drop_bit 24 (push_bit 16 a AND push_bit 24 (mask 8))) :: 8 word) n
      = bit (ucast (drop_bit 8 a) :: 8 word) n"
    by (auto simp: bit_simps)
qed

lemma byte3: "ucast (drop_bit 24 (push_bit 24 (a :: 32 word) AND 0xFF000000)) = (ucast a :: 8 word)"
  unfolding top_mask
proof (rule bit_word_eqI)
  fix n assume "n < LENGTH(8)"
  then have n: "n < 8" by simp
  then show "bit (ucast (drop_bit 24 (push_bit 24 a AND push_bit 24 (mask 8))) :: 8 word) n
      = bit (ucast a :: 8 word) n"
    by (auto simp: bit_simps)
qed

lemma flush_word_bytes:
  assumes "current ch + 4 \<le> length (head ch)"
  shows "head (flush_word ch) ! (current ch + 1) = ucast (drop_bit 16 (cache ch AND 0xFFFFFF))"
    "head (flush_word ch) ! (current ch + 2) = ucast (drop_bit 8 (cache ch AND 0xFFFFFF))"
    "head (flush_word ch) ! (current ch + 3) = ucast (cache ch AND 0xFFFFFF)"
proof -
  define c where "c = ch\<lparr>cache := cache ch AND 0xFFFFFF\<rparr>"
  have l: "current c + 4 \<le> length (head c)" using assms by (simp add: c_def)
  have h: "head (flush_word ch) = head (store_cache 4 c)"
    by (simp add: flush_word_def Let_def c_def del: store_cache.simps)
  have e: "8 * (1::nat) = 8" "8 * (2::nat) = 16" "8 * (3::nat) = 24" by simp_all
  have f: "cache c = cache ch AND 0xFFFFFF" "current c = current ch" by (simp_all add: c_def)
  have "head (store_cache 4 c) ! (current c + 1)
          = ucast (drop_bit 24 (push_bit (8 * 1) (cache c) AND 0xFF000000))"
    by (rule store_cache_nth) (use l in simp_all)
  then show "head (flush_word ch) ! (current ch + 1) = ucast (drop_bit 16 (cache ch AND 0xFFFFFF))"
    unfolding h e byte1 f .
  have "head (store_cache 4 c) ! (current c + 2)
          = ucast (drop_bit 24 (push_bit (8 * 2) (cache c) AND 0xFF000000))"
    by (rule store_cache_nth) (use l in simp_all)
  then show "head (flush_word ch) ! (current ch + 2) = ucast (drop_bit 8 (cache ch AND 0xFFFFFF))"
    unfolding h e byte2 f .
  have "head (store_cache 4 c) ! (current c + 3)
          = ucast (drop_bit 24 (push_bit (8 * 3) (cache c) AND 0xFF000000))"
    by (rule store_cache_nth) (use l in simp_all)
  then show "head (flush_word ch) ! (current ch + 3) = ucast (cache ch AND 0xFFFFFF)"
    unfolding h e byte3 f .
qed


lemma chunk_write_fill_step:
  assumes "cachebits ch < 24" "24 \<le> cachebits ch + nbits" "nbits \<le> 32"
    "current ch \<noteq> max_ptr ch" "current ch + 4 \<le> length (head ch)"
  shows "\<exists>ch3. chunk_write nbits val ch =
             (if nbits - (24 - cachebits ch) \<noteq> 0 then chunk_write (nbits - (24 - cachebits ch)) val ch3
              else Inr (0, ch3))
           \<and> bytes ch3 = bytes ch + 4 \<and> current ch3 = current ch + 4 \<and> cachebits ch3 = 0
           \<and> length (head ch3) = length (head ch)
           \<and> head ch3 ! current ch = 0
           \<and> head ch3 ! (current ch + 1) = ucast (drop_bit 16 (accumulator ch nbits val))
           \<and> head ch3 ! (current ch + 2) = ucast (drop_bit 8 (accumulator ch nbits val))
           \<and> head ch3 ! (current ch + 3) = ucast (accumulator ch nbits val)
           \<and> (\<forall>j. j < current ch \<or> current ch + 4 \<le> j \<longrightarrow> head ch3 ! j = head ch ! j)"
proof -
  define ch1 where "ch1 = ch\<lparr>cache := push_bit (24 - cachebits ch) (cache ch)
                                     OR drop_bit (nbits - (24 - cachebits ch)) val,
                           cachebits := 24\<rparr>"
  define ch3 where "ch3 = flush_word ch1"
  have w: "chunk_write nbits val ch =
             (if nbits - (24 - cachebits ch) \<noteq> 0 then chunk_write (nbits - (24 - cachebits ch)) val ch3
              else Inr (0, ch3))"
    using chunk_write_fill [OF assms, of val]
    by (simp add: Let_def ch1_def ch3_def)
  have f1: "current ch1 = current ch" "head ch1 = head ch" "bytes ch1 = bytes ch"
    "cache ch1 AND 0xFFFFFF = accumulator ch nbits val"
    by (simp_all add: ch1_def accumulator_def)
  have l1: "current ch1 + 4 \<le> length (head ch1)" "current ch1 < length (head ch1)"
    using assms(5) f1 by simp_all
  have p3: "bytes ch3 = bytes ch + 4" "current ch3 = current ch + 4"
    "length (head ch3) = length (head ch)" "cachebits ch3 = 0"
    using f1 by (simp_all add: ch3_def)
  have b0: "head ch3 ! current ch = 0"
    using flush_word_first [OF l1(2)] f1 by (simp add: ch3_def)
  have b1: "head ch3 ! (current ch + 1) = ucast (drop_bit 16 (accumulator ch nbits val))"
    "head ch3 ! (current ch + 2) = ucast (drop_bit 8 (accumulator ch nbits val))"
    "head ch3 ! (current ch + 3) = ucast (accumulator ch nbits val)"
    using flush_word_bytes [OF l1(1)] unfolding f1 ch3_def by blast+
  have oth: "\<forall>j. j < current ch \<or> current ch + 4 \<le> j \<longrightarrow> head ch3 ! j = head ch ! j"
    using flush_word_other [of _ ch1] f1 by (simp add: ch3_def)
  show ?thesis
    using w p3 b0 b1 oth by blast
qed

lemma word_bytes:
  "(ucast (drop_bit 16 (0x010203 :: 32 word)) :: 8 word) = 1"
  "(ucast (drop_bit 8 (0x010203 :: 32 word)) :: 8 word) = 2"
  "(ucast (0x010203 :: 32 word) :: 8 word) = 3"
  by simp_all

lemma getSimpleDetails_fault: "\<not> chunk_fault (getSimpleDetails env v effect strength)"
proof -
  have h: "\<not> chunk_fault (bnd (intensityToVolLevel env v i idx) (\<lambda>volLevel. Inr (Inr (idx, t, volLevel))))"
    for i idx and t :: "32 word"
    by (rule not_chunk_fault_bnd) (simp_all add: intensityToVolLevel_fault)
  show ?thesis
    unfolding getSimpleDetails_def
    by (simp add: h Let_def split: option.splits EffectStrength.splits Effect.splits prod.splits)
qed

lemma getCompoundDetails_ok:
  assumes "chunk_ok ch" "bits_written ch + 96 \<le> capacity_bits ch"
    "waveformType ch = WAVEFORM_COMPOSE" "2 < length (head ch)"
  shows "yields (\<lambda>r. chunk_ok (fst (snd (snd r))) \<and> max_ptr (fst (snd (snd r))) = max_ptr ch)
           (getCompoundDetails env effect strength t0 ch v)"
proof (cases "effect = Effect_DOUBLE_CLICK")
  case False
  then show ?thesis
    using assms(1) by (cases effect) (simp_all add: getCompoundDetails_def yields_Inr)
next
  case dc: True
  let ?Q = "\<lambda>r :: status \<times> 32 word \<times> DspMemChunk \<times> Vibrator.
              chunk_ok (fst (snd (snd r))) \<and> max_ptr (fst (snd (snd r))) = max_ptr ch"
  have r48: "bits_written ch + 48 \<le> capacity_bits ch" using assms(2) by simp
  show ?thesis
  proof (cases "getSimpleDetails env v Effect_CLICK strength")
    case (Inl f)
    then have "getCompoundDetails env effect strength t0 ch v = Inl f"
      using dc by (simp add: getCompoundDetails_def)
    moreover have "\<not> chunk_fault (Inl f :: fault + status \<times> 32 word \<times> DspMemChunk \<times> Vibrator)"
      using getSimpleDetails_fault [of env v Effect_CLICK strength] Inl by (simp add: chunk_fault_def)
    ultimately show ?thesis by (simp add: yields_def)
  next
    case g1: (Inr r1)
    show ?thesis
    proof (cases r1)
      case (Inl st)
      then show ?thesis using dc g1 assms(1) by (simp add: getCompoundDetails_def yields_Inr)
    next
      case s1: (Inr tr)
      obtain idx1 t1 vol1 where tr: "tr = (idx1, t1, vol1)" by (cases tr) auto
      obtain rc1 ch1 where seg1: "constructComposeSegment vol1 (of_nat idx1) 0 0
             (of_nat WAVEFORM_DOUBLE_CLICK_SILENCE_MS) ch = Inr (rc1, ch1)" "grown_by 48 ch ch1"
        using constructComposeSegment_grows [OF assms(1) r48] by blast
      have ok1: "chunk_ok ch1" "bits_written ch1 + 48 \<le> capacity_bits ch1" "max_ptr ch1 = max_ptr ch"
        "waveformType ch1 = WAVEFORM_COMPOSE"
        using grown_by_room [OF seg1(2), of 48] assms(2,3) seg1(2) by (auto simp: grown_by_def)
      show ?thesis
      proof (cases "getSimpleDetails env v Effect_HEAVY_CLICK strength")
        case (Inl f)
        then have "getCompoundDetails env effect strength t0 ch v = Inl f"
          using dc g1 s1 tr seg1(1) by (simp add: getCompoundDetails_def Let_def)
        moreover have "\<not> chunk_fault (Inl f :: fault + status \<times> 32 word \<times> DspMemChunk \<times> Vibrator)"
          using getSimpleDetails_fault [of env v Effect_HEAVY_CLICK strength] Inl
          by (simp add: chunk_fault_def)
        ultimately show ?thesis by (simp add: yields_def)
      next
        case g2: (Inr r2)
        show ?thesis
        proof (cases r2)
          case (Inl st)
          then show ?thesis
            using dc g1 s1 tr seg1(1) g2 ok1 by (simp add: getCompoundDetails_def Let_def yields_Inr)
        next
          case s2: (Inr tr2)
          obtain idx2 t2 vol2 where tr2: "tr2 = (idx2, t2, vol2)" by (cases tr2) auto
          obtain rc2 ch2 where seg2: "constructComposeSegment vol2 (of_nat idx2) 0 0 0 ch1 = Inr (rc2, ch2)"
              "grown_by 48 ch1 ch2"
            using constructComposeSegment_grows [OF ok1(1,2)] by blast
          have ok2: "chunk_ok ch2" "bits_written ch2 \<le> capacity_bits ch2" "max_ptr ch2 = max_ptr ch"
            "waveformType ch2 = WAVEFORM_COMPOSE"
            using grown_by_room [OF seg2(2), of 0] ok1 seg2(2) by (auto simp: grown_by_def)
          obtain ch3 where f3: "flush ch2 = Inr (0, ch3)" "grown_by 23 ch2 ch3"
            using flush_grows [OF ok2(1,2)] by blast
          have ok3: "chunk_ok ch3" "max_ptr ch3 = max_ptr ch" "waveformType ch3 = WAVEFORM_COMPOSE"
            using f3(2) ok2 by (auto simp: grown_by_def)
          have len3: "2 < length (head ch3)"
            using ok3(1,2) assms(1,4) by (simp add: chunk_ok_def)
          have two: "(2 :: int) \<le> 255" by simp
          have u4: "updateNSection 2 ch3 = Inr (0, ch3\<lparr>head := (head ch3)[2 := word_of_int 2]\<rparr>)"
            using updateNSection_compose [OF ok3(3) two len3] .
          have ok4: "chunk_ok (ch3\<lparr>head := (head ch3)[2 := word_of_int 2]\<rparr>)"
            by (rule chunk_ok_update [OF ok3(1)]) simp
          show ?thesis
            using dc g1 s1 tr seg1(1) g2 s2 tr2 seg2(1) f3(1) u4 ok4 ok3(2)
            by (simp add: getCompoundDetails_def Let_def yields_Inr)
        qed
      qed
    qed
  qed
qed

lemma doubleClick_build_ok:
  "yields (\<lambda>r. chunk_ok (snd r) \<and> max_ptr (snd r) = 2044) (doubleClick_build env v strength)"
proof -
  have a: "chunk_ok fresh_compose_chunk" "bits_written fresh_compose_chunk + 96 \<le> capacity_bits fresh_compose_chunk"
    "waveformType fresh_compose_chunk = WAVEFORM_COMPOSE" "2 < length (head fresh_compose_chunk)"
    using fresh_compose_ok by (simp_all add: chunk_ok_def)
  have e: "doubleClick_build env v strength =
       bnd (getCompoundDetails env Effect_DOUBLE_CLICK strength 0 fresh_compose_chunk v)
         (\<lambda>(st, timeMs, ch, v'). Inr (st, ch))"
    by (simp add: doubleClick_build_def fresh_compose)
  show ?thesis
    unfolding e
  proof (rule yields_bnd [OF getCompoundDetails_ok [OF a]])
    fix r :: "status \<times> 32 word \<times> DspMemChunk \<times> Vibrator"
    assume "chunk_ok (fst (snd (snd r))) \<and> max_ptr (fst (snd (snd r))) = max_ptr fresh_compose_chunk"
    then show "yields (\<lambda>r. chunk_ok (snd r) \<and> max_ptr (snd r) = 2044)
                 (case r of (st, timeMs, ch, v') \<Rightarrow> Inr (st, ch))"
      using fresh_compose_ok(4) by (cases r) (auto simp: yields_Inr)
  qed
qed


lemma double_click_blob: "doubleClick_build env_ok vib0 STRONG = Inr (STATUS_OK, double_click_chunk)"
  by code_simp

text \<open>
  C10, as the code has it. A \<open>write(nbits, val)\<close> that fills the 24-bit accumulator,
  with the cursor not at the end of the array and four bytes left in it, stores exactly
  four bytes at the cursor (a zero byte, then the three bytes of the accumulator, most
  significant first), leaves every other byte of the array as it was, advances the
  cursor and \<open>size()\<close> by 4, empties the accumulator and goes on from that chunk
  with the bits of \<open>val\<close> that are left, which may fill the accumulator again. With the
  cursor at the end of the array a \<open>write\<close> that fills the accumulator stores nothing:
  it returns \<open>-ENOSPC\<close> with the array, the cursor and \<open>size()\<close> as they were and the
  accumulator full. In every blob that \<open>compose\<close> builds, that \<open>composePwle\<close> builds
  from the up to 127 elements it admits, and that \<open>performEffect\<close> builds for
  \<open>DOUBLE_CLICK\<close>, \<open>size()\<close> is a multiple of 4 and every byte of the array at an
  index that is a multiple of 4 is zero, after the header patches too.
\<close>

theorem accumulator_fill_writes_word:
  "(\<forall>ch. cachebits ch < 24 \<and> 24 \<le> cachebits ch + nbits \<and> nbits \<le> 32
         \<and> current ch \<noteq> max_ptr ch \<and> current ch + 4 \<le> length (head ch) \<longrightarrow>
      (\<exists>ch3. chunk_write nbits val ch =
             (if nbits - (24 - cachebits ch) \<noteq> 0 then chunk_write (nbits - (24 - cachebits ch)) val ch3
              else Inr (0, ch3))
           \<and> bytes ch3 = bytes ch + 4 \<and> current ch3 = current ch + 4 \<and> cachebits ch3 = 0
           \<and> length (head ch3) = length (head ch)
           \<and> head ch3 ! current ch = 0
           \<and> head ch3 ! (current ch + 1) = ucast (drop_bit 16 (accumulator ch nbits val))
           \<and> head ch3 ! (current ch + 2) = ucast (drop_bit 8 (accumulator ch nbits val))
           \<and> head ch3 ! (current ch + 3) = ucast (accumulator ch nbits val)
           \<and> (\<forall>j. j < current ch \<or> current ch + 4 \<le> j \<longrightarrow> head ch3 ! j = head ch ! j)))
   \<and> (\<forall>ch. cachebits ch < 24 \<and> 24 \<le> cachebits ch + nbits \<and> nbits \<le> 32
         \<and> current ch = max_ptr ch \<longrightarrow>
      (\<exists>ch'. chunk_write nbits val ch = Inr (- ENOSPC, ch')
           \<and> head ch' = head ch \<and> bytes ch' = bytes ch \<and> current ch' = current ch
           \<and> cachebits ch' = 24))
   \<and> (\<forall>ch. compose_build env v composite = Inr (Inr ch) \<longrightarrow>
         4 dvd bytes ch \<and> (\<forall>i. 4 * i < length (head ch) \<longrightarrow> head ch ! (4 * i) = 0))
   \<and> (\<forall>ch. length pw \<le> COMPOSE_PWLE_SIZE_MAX_DEFAULT \<and> composePwle_build clab pw = Inr (Inr ch) \<longrightarrow>
         4 dvd bytes ch \<and> (\<forall>i. 4 * i < length (head ch) \<longrightarrow> head ch ! (4 * i) = 0))
   \<and> (\<forall>st ch. doubleClick_build env v strength = Inr (st, ch) \<longrightarrow>
         4 dvd bytes ch \<and> (\<forall>i. 4 * i < length (head ch) \<longrightarrow> head ch ! (4 * i) = 0))"
proof (intro conjI allI impI)
  fix ch :: DspMemChunk
  assume "cachebits ch < 24 \<and> 24 \<le> cachebits ch + nbits \<and> nbits \<le> 32
         \<and> current ch \<noteq> max_ptr ch \<and> current ch + 4 \<le> length (head ch)"
  then have a: "cachebits ch < 24" "24 \<le> cachebits ch + nbits" "nbits \<le> 32"
    "current ch \<noteq> max_ptr ch" "current ch + 4 \<le> length (head ch)"
    by blast+
  show "\<exists>ch3. chunk_write nbits val ch =
             (if nbits - (24 - cachebits ch) \<noteq> 0 then chunk_write (nbits - (24 - cachebits ch)) val ch3
              else Inr (0, ch3))
           \<and> bytes ch3 = bytes ch + 4 \<and> current ch3 = current ch + 4 \<and> cachebits ch3 = 0
           \<and> length (head ch3) = length (head ch)
           \<and> head ch3 ! current ch = 0
           \<and> head ch3 ! (current ch + 1) = ucast (drop_bit 16 (accumulator ch nbits val))
           \<and> head ch3 ! (current ch + 2) = ucast (drop_bit 8 (accumulator ch nbits val))
           \<and> head ch3 ! (current ch + 3) = ucast (accumulator ch nbits val)
           \<and> (\<forall>j. j < current ch \<or> current ch + 4 \<le> j \<longrightarrow> head ch3 ! j = head ch ! j)"
    by (rule chunk_write_fill_step [OF a])
next
  fix ch :: DspMemChunk
  assume "cachebits ch < 24 \<and> 24 \<le> cachebits ch + nbits \<and> nbits \<le> 32 \<and> current ch = max_ptr ch"
  then have a: "cachebits ch < 24" "24 \<le> cachebits ch + nbits" "nbits \<le> 32" "current ch = max_ptr ch"
    by blast+
  have b: "cachebits ch \<le> 24" "nbits - (24 - cachebits ch) < 32" "isEnd ch"
    using a by (simp_all add: isEnd_def)
  show "\<exists>ch'. chunk_write nbits val ch = Inr (- ENOSPC, ch')
           \<and> head ch' = head ch \<and> bytes ch' = bytes ch \<and> current ch' = current ch
           \<and> cachebits ch' = 24"
    unfolding chunk_write_at_end [OF b(1) a(2) b(2,3)] by simp
next
  fix ch :: DspMemChunk
  assume "compose_build env v composite = Inr (Inr ch)"
  then have ok: "chunk_ok ch" using compose_build_facts [of env v composite] by blast
  show "4 dvd bytes ch" using ok by (simp add: chunk_ok_def)
  fix i assume "4 * i < length (head ch)"
  then show "head ch ! (4 * i) = 0" using ok by (simp add: chunk_ok_def)
next
  fix ch :: DspMemChunk
  assume "length pw \<le> COMPOSE_PWLE_SIZE_MAX_DEFAULT \<and> composePwle_build clab pw = Inr (Inr ch)"
  then have ok: "chunk_ok ch" using composePwle_build_yields [of pw clab] by (auto simp: yields_def)
  show "4 dvd bytes ch" using ok by (simp add: chunk_ok_def)
  fix i assume "4 * i < length (head ch)"
  then show "head ch ! (4 * i) = 0" using ok by (simp add: chunk_ok_def)
next
  fix st and ch :: DspMemChunk
  assume "doubleClick_build env v strength = Inr (st, ch)"
  then have ok: "chunk_ok ch" using doubleClick_build_ok [of env v strength] by (auto simp: yields_def)
  show "4 dvd bytes ch" using ok by (simp add: chunk_ok_def)
  fix i assume "4 * i < length (head ch)"
  then show "head ch ! (4 * i) = 0" using ok by (simp add: chunk_ok_def)
qed

theorem accumulator_fill_writes_word_witness:
  "cachebits fresh_compose_chunk < 24 \<and> 24 \<le> cachebits fresh_compose_chunk + 24
   \<and> current fresh_compose_chunk \<noteq> max_ptr fresh_compose_chunk
   \<and> current fresh_compose_chunk + 4 \<le> length (head fresh_compose_chunk)
   \<and> accumulator fresh_compose_chunk 24 0x010203 = 0x010203
   \<and> (\<exists>ch'. chunk_write 24 0x010203 fresh_compose_chunk = Inr (0, ch')
         \<and> bytes ch' = 8 \<and> current ch' = 8
         \<and> head ch' ! 4 = 0 \<and> head ch' ! 5 = 1 \<and> head ch' ! 6 = 2 \<and> head ch' ! 7 = 3)
   \<and> cachebits full_chunk < 24 \<and> current full_chunk = max_ptr full_chunk
   \<and> (\<exists>ch'. chunk_write 24 0x010203 full_chunk = Inr (- ENOSPC, ch') \<and> bytes ch' = bytes full_chunk)
   \<and> compose_build env_ok vib0 [click_step 0] = Inr (Inr click_chunk)
   \<and> 4 dvd bytes click_chunk \<and> head click_chunk ! (4 * 1) = 0
   \<and> length ramp_and_brake \<le> COMPOSE_PWLE_SIZE_MAX_DEFAULT
   \<and> composePwle_build False ramp_and_brake = Inr (Inr pwle_chunk)
   \<and> 4 dvd bytes pwle_chunk \<and> head pwle_chunk ! (4 * 3) = 0
   \<and> doubleClick_build env_ok vib0 STRONG = Inr (STATUS_OK, double_click_chunk)
   \<and> 4 dvd bytes double_click_chunk \<and> head double_click_chunk ! (4 * 3) = 0"
proof -
  have h: "cachebits fresh_compose_chunk < 24" "24 \<le> cachebits fresh_compose_chunk + 24"
    "(24 :: nat) \<le> 32"
    "current fresh_compose_chunk \<noteq> max_ptr fresh_compose_chunk"
    "current fresh_compose_chunk + 4 \<le> length (head fresh_compose_chunk)"
    by (simp_all add: fresh_compose_chunk_def)
  have e: "cachebits full_chunk < 24" "24 \<le> cachebits full_chunk + 24"
    "current full_chunk = max_ptr full_chunk"
    by (simp_all add: full_chunk_def fresh_compose_chunk_def)
  have acc: "accumulator fresh_compose_chunk 24 0x010203 = 0x010203"
    by (simp add: accumulator_def fresh_compose_chunk_def)
  have f: "current fresh_compose_chunk = 4" "bytes fresh_compose_chunk = 4"
    "24 - (24 - cachebits fresh_compose_chunk) = 0"
    by (simp_all add: fresh_compose_chunk_def)
  have len: "length ramp_and_brake \<le> COMPOSE_PWLE_SIZE_MAX_DEFAULT"
    "4 * 1 < length (head click_chunk)" "4 * 3 < length (head pwle_chunk)"
    "4 * 3 < length (head double_click_chunk)"
    by (simp_all add: ramp_and_brake_def COMPOSE_PWLE_SIZE_MAX_DEFAULT_def click_chunk_def pwle_chunk_def
        double_click_chunk_def)
  note t = accumulator_fill_writes_word
             [of 24 "0x010203" env_ok vib0 "[click_step 0]" ramp_and_brake False STRONG]
  from t h have "\<exists>ch3. chunk_write 24 0x010203 fresh_compose_chunk =
             (if 24 - (24 - cachebits fresh_compose_chunk) \<noteq> 0
              then chunk_write (24 - (24 - cachebits fresh_compose_chunk)) 0x010203 ch3
              else Inr (0, ch3))
           \<and> bytes ch3 = bytes fresh_compose_chunk + 4 \<and> current ch3 = current fresh_compose_chunk + 4
           \<and> cachebits ch3 = 0
           \<and> length (head ch3) = length (head fresh_compose_chunk)
           \<and> head ch3 ! current fresh_compose_chunk = 0
           \<and> head ch3 ! (current fresh_compose_chunk + 1) = ucast (drop_bit 16 (accumulator fresh_compose_chunk 24 0x010203))
           \<and> head ch3 ! (current fresh_compose_chunk + 2) = ucast (drop_bit 8 (accumulator fresh_compose_chunk 24 0x010203))
           \<and> head ch3 ! (current fresh_compose_chunk + 3) = ucast (accumulator fresh_compose_chunk 24 0x010203)
           \<and> (\<forall>j. j < current fresh_compose_chunk \<or> current fresh_compose_chunk + 4 \<le> j
                  \<longrightarrow> head ch3 ! j = head fresh_compose_chunk ! j)"
    by blast
  then have a: "\<exists>ch'. chunk_write 24 0x010203 fresh_compose_chunk = Inr (0, ch')
         \<and> bytes ch' = 8 \<and> current ch' = 8
         \<and> head ch' ! 4 = 0 \<and> head ch' ! 5 = 1 \<and> head ch' ! 6 = 2 \<and> head ch' ! 7 = 3"
    unfolding acc f word_bytes by auto
  from t e h(3) have "\<exists>ch'. chunk_write 24 0x010203 full_chunk = Inr (- ENOSPC, ch')
           \<and> head ch' = head full_chunk \<and> bytes ch' = bytes full_chunk \<and> current ch' = current full_chunk
           \<and> cachebits ch' = 24"
    by blast
  then have b: "\<exists>ch'. chunk_write 24 0x010203 full_chunk = Inr (- ENOSPC, ch') \<and> bytes ch' = bytes full_chunk"
    by blast
  from t click_blob len(2) have c: "4 dvd bytes click_chunk \<and> head click_chunk ! (4 * 1) = 0"
    by blast
  from t ramp_blob len(1,3) have d: "4 dvd bytes pwle_chunk \<and> head pwle_chunk ! (4 * 3) = 0"
    by blast
  from t double_click_blob len(4) have g: "4 dvd bytes double_click_chunk \<and> head double_click_chunk ! (4 * 3) = 0"
    by blast
  show ?thesis using a b c d g h e acc len(1) click_blob ramp_blob double_click_blob by simp
qed

text \<open>
  The claim that the accumulator, whenever it fills, is written as four bytes fails at the
  end of the array: on a compose chunk whose cursor is at its 2044 bytes, a write of 24
  bits fills the accumulator and returns \<open>-ENOSPC\<close>; no byte is stored and \<open>size()\<close>
  stays 2044.
\<close>

theorem accumulator_fill_at_end_stores_nothing:
  "cachebits full_chunk = 0 \<and> current full_chunk = max_ptr full_chunk
   \<and> chunk_write 24 0x010203 full_chunk
       = Inr (- ENOSPC, full_chunk\<lparr>cache := 0x010203, cachebits := 24\<rparr>)"
proof -
  have b: "cachebits full_chunk \<le> 24" "24 \<le> cachebits full_chunk + 24"
    "24 - (24 - cachebits full_chunk) < 32" "isEnd full_chunk"
    by (simp_all add: full_chunk_def fresh_compose_chunk_def isEnd_def)
  show ?thesis
    unfolding chunk_write_at_end [OF b]
    by (simp add: full_chunk_def fresh_compose_chunk_def)
qed

section \<open>compose: the section count\<close>

text \<open>
  The section count that \<open>compose\<close> patches into byte 2 of the header is the number of
  entries, plus one when the first \<open>delayMs\<close>, as stored in the \<open>uint16_t\<close>
  \<open>nextEffectDelay\<close>, is not zero. For a first \<open>delayMs\<close> from 0 to 65535 the stored
  value is zero exactly when \<open>delayMs\<close> is.
\<close>

lemma compose_section_count:
  assumes "compose_build env v composite = Inr (Inr ch)"
  shows "unat (head ch ! 2) = length composite
              + (if (word_of_int (delayMs (hd composite)) :: 16 word) = 0 then 0 else 1)"
    and "0 \<le> delayMs (hd composite) \<Longrightarrow> delayMs (hd composite) < 65536 \<Longrightarrow>
           unat (head ch ! 2) = length composite + (if delayMs (hd composite) = 0 then 0 else 1)"
proof -
  show a: "unat (head ch ! 2) = length composite
              + (if (word_of_int (delayMs (hd composite)) :: 16 word) = 0 then 0 else 1)"
    using compose_build_facts [of env v composite] assms by blast
  assume r: "0 \<le> delayMs (hd composite)" "delayMs (hd composite) < 65536"
  have "uint (word_of_int (delayMs (hd composite)) :: 16 word) = delayMs (hd composite)"
    using r by (simp add: uint_word_of_int)
  then have "((word_of_int (delayMs (hd composite)) :: 16 word) = 0) = (delayMs (hd composite) = 0)"
    using uint_0_iff [of "word_of_int (delayMs (hd composite)) :: 16 word"] by simp
  then show "unat (head ch ! 2) = length composite + (if delayMs (hd composite) = 0 then 0 else 1)"
    using a by simp
qed

lemma delayed_click_blob: "compose_build env_ok vib0 [click_step 65536] = Inr (Inr click_chunk)"
  by code_simp

lemma click_chunk_fields:
  "waveformType click_chunk = WAVEFORM_COMPOSE" "bytes click_chunk = 12"
  "unat (head click_chunk ! 2) = 1"
  by (simp_all add: click_chunk_def WAVEFORM_COMPOSE_def)

lemma voltage_scale_max:
  "float_of_int (uint (of_nat VOLTAGE_SCALE_MAX :: 32 word)) = Fin 100"
  "float_of_int (int VOLTAGE_SCALE_MAX) = Fin 100"
  by (simp_all add: VOLTAGE_SCALE_MAX_def float_100)

text \<open>
  C1 fails for the one-step composition whose first \<open>delayMs\<close> is 65536. The value is
  above \<open>COMPOSE_DELAY_MAX_MS\<close>, yet \<open>compose\<close> returns OK on a driver that accepts
  every call: the \<open>uint16_t\<close> holds 0, the range check passes, no leading delay
  segment is written and the section count in the header is 1, the number of entries,
  not 2. The blob is the one of the same composition with \<open>delayMs = 0\<close>.
\<close>

theorem compose_drops_first_delay_of_65536:
  "delayMs (hd [click_step 65536]) = 65536
   \<and> COMPOSE_DELAY_MAX_MS < delayMs (hd [click_step 65536])
   \<and> map_sum id fst (compose env_ok [click_step 65536] None vib0) = Inr STATUS_OK
   \<and> compose_build env_ok vib0 [click_step 65536] = Inr (Inr click_chunk)
   \<and> unat (head click_chunk ! 2) = length [click_step 65536]
   \<and> compose_build env_ok vib0 [click_step 65536] = compose_build env_ok vib0 [click_step 0]"
proof -
  have a: "map_sum id fst (compose env_ok [click_step 65536] None vib0) = Inr STATUS_OK"
    apply (simp add: compose_def delayed_click_blob)
    apply (simp add: performEffect_def voltage_scale_max setEffectAmplitude_def
      full_scale Let_def logcall_def env_ok_def hw_ok_def vib0_def Vibrator_on_def on_upload_def
      on_play_def click_chunk_fields WAVEFORM_COMPOSE_def WAVEFORM_PWLE_def WAVEFORM_MAX_INDEX_def
      FF_MAX_EFFECTS_def)
    done
  have b: "delayMs (hd [click_step 65536]) = 65536"
    "COMPOSE_DELAY_MAX_MS < delayMs (hd [click_step 65536])"
    by (simp_all add: click_step_def COMPOSE_DELAY_MAX_MS_def)
  have c: "unat (head click_chunk ! 2) = length [click_step 65536]"
    by (simp add: click_chunk_fields)
  have d: "compose_build env_ok vib0 [click_step 65536] = compose_build env_ok vib0 [click_step 0]"
    by (simp only: delayed_click_blob click_blob)
  show ?thesis
    using a b c d delayed_click_blob by blast
qed

end
